theory Spec2Isabelle
  imports Complex_Main "HOL-Library.Multiset"
begin

section \<open>SpeakerStream: data model\<close>

text \<open>
  The development follows \<^verbatim>\<open>src/speech-to-text/speaker-stream.js\<close>.

  Times are JSON numbers, that is finite IEEE doubles. The code never computes
  with them, it only compares them (\<^verbatim>\<open>===\<close>, \<^verbatim>\<open>!==\<close>, \<^verbatim>\<open><\<close>), and
  on finite doubles these comparisons are the ones of the rationals, so a time is
  a \<^typ>\<open>rat\<close>. A word timestamp is the positional array
  \<^verbatim>\<open>[word, from, to]\<close>, read through the source's index constants
  \<^verbatim>\<open>WORD\<close>, \<^verbatim>\<open>FROM\<close> and \<^verbatim>\<open>TO\<close>.
\<close>

type_synonym timestamp = "string \<times> rat \<times> rat"

definition WORD :: "timestamp \<Rightarrow> string" where
  "WORD t = fst t"

definition FROM :: "timestamp \<Rightarrow> rat" where
  "FROM t = fst (snd t)"

definition TO :: "timestamp \<Rightarrow> rat" where
  "TO t = snd (snd t)"

text \<open>A speaker label, with the fields of the service's \<^verbatim>\<open>speaker_labels\<close> entries
  (\<^verbatim>\<open>from\<close> and \<^verbatim>\<open>to\<close> are written \<open>label_from\<close> and \<open>label_to\<close>).\<close>

record label =
  label_from :: rat
  label_to :: rat
  speaker :: nat
  confidence :: rat
  final :: bool

text \<open>An alternative carries a transcript and its word timestamps. It is the shape of
  \<^verbatim>\<open>result.alternatives[0]\<close> in the input and of the alternative that
  \<^verbatim>\<open>process\<close> builds for each output result.\<close>

record alternative =
  transcript :: string
  alt_timestamps :: "timestamp list"

record result =
  res_final :: bool
  res_alternatives :: "alternative list"

text \<open>An incoming message: \<^verbatim>\<open>data.results\<close> and \<^verbatim>\<open>data.speaker_labels\<close> are each
  an array or absent (\<^verbatim>\<open>Array.isArray\<close> is what \<^verbatim>\<open>_transform\<close> asks).\<close>

record data =
  data_results :: "result list option"
  data_speaker_labels :: "label list option"

text \<open>What \<^verbatim>\<open>isFinal\<close> returns is the value of a JavaScript \<^verbatim>\<open>&&\<close>: the number
  \<^verbatim>\<open>0\<close> when the label array is empty, the \<^verbatim>\<open>final\<close> field of the last label
  otherwise.\<close>

datatype js_value = JSNumber nat | JSBoolean bool

text \<open>An output result (one line of one speaker), and the message that is pushed.\<close>

record segment =
  seg_speaker :: nat
  seg_alternatives :: "alternative list"
  seg_final :: js_value

record segmented_result =
  results :: "segment list"
  result_index :: nat

text \<open>
  Arrays are JavaScript objects: \<^verbatim>\<open>this.timestamps\<close> and \<^verbatim>\<open>this.speaker_labels\<close>
  hold references, and an error object that is given \<^verbatim>\<open>this.speaker_labels\<close> holds the
  same reference. The model therefore has an explicit store for the two kinds of array the
  stream owns, one per element type. \<open>ts_next\<close> is the first address of the timestamp
  store that no array has been allocated at.
\<close>

type_synonym addr = nat

record stream =
  timestamps :: addr
  speaker_labels :: addr
  ts_heap :: "addr \<Rightarrow> timestamp list"
  sl_heap :: "addr \<Rightarrow> label list"
  ts_next :: addr

definition timestamps_of :: "stream \<Rightarrow> timestamp list" where
  "timestamps_of s = ts_heap s (timestamps s)"

definition labels_of :: "stream \<Rightarrow> label list" where
  "labels_of s = sl_heap s (speaker_labels s)"

text \<open>The constructor: two fresh empty arrays.\<close>

definition SpeakerStream :: stream where
  "SpeakerStream =
     \<lparr>timestamps = 0, speaker_labels = 0,
      ts_heap = (\<lambda>a. []), sl_heap = (\<lambda>a. []), ts_next = 1\<rparr>"

text \<open>Error objects. \<^verbatim>\<open>err.speaker_labels\<close> and \<^verbatim>\<open>err.timestamps\<close> are references
  into the store; an error that does not set a field has \<open>None\<close> there.
  \<open>ERROR_NO_TIMESTAMPS\<close> stands for \<^verbatim>\<open>noTimestamps.ERROR_NO_TIMESTAMPS\<close>, the name of the
  configuration error, whose string is defined outside this file.\<close>

datatype error_name = ERROR_MISMATCH | ERROR_NO_TIMESTAMPS

record error =
  err_message :: string
  err_name :: error_name
  err_speaker_label :: "label option"
  err_timestamp :: "timestamp option"
  err_speaker_labels :: "addr option"
  err_timestamps :: "addr option"

text \<open>What the stream sends out, in order: \<^verbatim>\<open>this.emit('error', err)\<close> and
  \<^verbatim>\<open>this.push(message)\<close>. An \<^verbatim>\<open>'error'\<close> listener is taken to be attached, so that
  emitting returns to the caller.\<close>

datatype event = Error error | Data segmented_result

section \<open>isFinal and process\<close>

definition isFinal :: "stream \<Rightarrow> js_value" where
  "isFinal s =
     (if length (labels_of s) = 0 then JSNumber (length (labels_of s))
      else JSBoolean (final (last (labels_of s))))"

text \<open>\<^verbatim>\<open>array[i]\<close>: \<^verbatim>\<open>undefined\<close> out of range.\<close>

definition at_index :: "'a list \<Rightarrow> nat \<Rightarrow> 'a option" where
  "at_index xs i = (if i < length xs then Some (xs ! i) else None)"

text \<open>The test \<^verbatim>\<open>!timestamp || timestamp[FROM] !== label.from || timestamp[TO] !== label.to\<close>.\<close>

definition mismatched :: "timestamp option \<Rightarrow> label \<Rightarrow> bool" where
  "mismatched timestamp label =
     (case timestamp of
        None \<Rightarrow> True
      | Some t \<Rightarrow> FROM t \<noteq> label_from label \<or> TO t \<noteq> label_to label)"

definition mismatch_error :: "stream \<Rightarrow> label \<Rightarrow> timestamp option \<Rightarrow> error" where
  "mismatch_error s label timestamp =
     \<lparr>err_message = ''Mismatch between speaker_label and word timestamp'',
      err_name = ERROR_MISMATCH,
      err_speaker_label = Some label,
      err_timestamp = timestamp,
      err_speaker_labels = Some (speaker_labels s),
      err_timestamps = Some (timestamps s)\<rparr>"

text \<open>The callback of \<^verbatim>\<open>this.speaker_labels.map\<close>. It returns the pair (or \<^verbatim>\<open>null\<close>),
  what it emitted, and the flag \<^verbatim>\<open>errored\<close> of the enclosing function. The last case
  is never taken: an absent timestamp is a mismatch.\<close>

definition pair_callback ::
  "stream \<Rightarrow> bool \<Rightarrow> label \<Rightarrow> nat \<Rightarrow> (timestamp \<times> label) option \<times> event list \<times> bool" where
  "pair_callback s errored label i =
     (let timestamp = at_index (timestamps_of s) i in
      if mismatched timestamp label then
        (if \<not> errored then (None, [Error (mismatch_error s label timestamp)], True)
         else (None, [], errored))
      else
        (case timestamp of
           Some t \<Rightarrow> (Some (t, label), [], errored)
         | None \<Rightarrow> (None, [], errored)))"

fun map_pairs ::
  "stream \<Rightarrow> nat \<Rightarrow> label list \<Rightarrow> bool \<Rightarrow> (timestamp \<times> label) option list \<times> event list \<times> bool" where
  "map_pairs s i [] errored = ([], [], errored)"
| "map_pairs s i (label # rest) errored =
     (case pair_callback s errored label i of
        (pair, emitted, errored') \<Rightarrow>
          (case map_pairs s (Suc i) rest errored' of
             (pairs, emitted', errored'') \<Rightarrow> (pair # pairs, emitted @ emitted', errored'')))"

text \<open>
  The callback of \<^verbatim>\<open>pairs.reduce\<close>. Reading \<^verbatim>\<open>pair[1]\<close> of a \<^verbatim>\<open>null\<close> pair, or
  \<^verbatim>\<open>alternatives[0].transcript\<close> of a result without alternatives, raises a
  \<^verbatim>\<open>TypeError\<close>: that is the value \<open>None\<close>. \<open>process_returns\<close> below shows that
  \<^verbatim>\<open>process\<close> never gets there.
\<close>

definition reduce_callback ::
  "js_value \<Rightarrow> segment list \<Rightarrow> (timestamp \<times> label) option \<Rightarrow> segment list option" where
  "reduce_callback fin arr pair =
     (case pair of
        None \<Rightarrow> None
      | Some (timestamp, label) \<Rightarrow>
          if arr = [] \<or> seg_speaker (last arr) \<noteq> speaker label then
            Some (arr @
              [\<lparr>seg_speaker = speaker label,
                seg_alternatives =
                  [\<lparr>transcript = WORD timestamp @ '' '', alt_timestamps = [timestamp]\<rparr>],
                seg_final = fin\<rparr>])
          else
            (case seg_alternatives (last arr) of
               [] \<Rightarrow> None
             | alt # alts \<Rightarrow>
                 Some (butlast arr @
                   [(last arr)\<lparr>seg_alternatives :=
                      alt\<lparr>transcript := transcript alt @ WORD timestamp @ '' '',
                          alt_timestamps := alt_timestamps alt @ [timestamp]\<rparr> # alts\<rparr>])))"

fun reduce :: "('b \<Rightarrow> 'a \<Rightarrow> 'b option) \<Rightarrow> 'a list \<Rightarrow> 'b \<Rightarrow> 'b option" where
  "reduce f [] acc = Some acc"
| "reduce f (x # xs) acc =
     (case f acc x of None \<Rightarrow> None | Some acc' \<Rightarrow> reduce f xs acc')"

text \<open>\<^verbatim>\<open>process\<close> returns the stream it was called on and what it sent out, or \<open>None\<close>
  when a \<^verbatim>\<open>TypeError\<close> leaves it.\<close>

definition process :: "stream \<Rightarrow> (stream \<times> event list) option" where
  "process s =
     (let fin = isFinal s in
      case map_pairs s 0 (labels_of s) False of
        (pairs, emitted, errored) \<Rightarrow>
          if errored then Some (s, emitted)
          else
            (case reduce (reduce_callback fin) pairs [] of
               None \<Rightarrow> None
             | Some res \<Rightarrow>
                 if length res \<noteq> 0
                 then Some (s, emitted @ [Data \<lparr>results = res, result_index = 0\<rparr>])
                 else Some (s, emitted)))"

section \<open>handleResults, handleSpeakerLabels, \_transform and \_flush\<close>

text \<open>\<^verbatim>\<open>this.timestamps = this.timestamps.concat(words)\<close>: \<^verbatim>\<open>concat\<close> allocates a new
  array and the field is pointed at it; the old array is left as it was.\<close>

definition concat_timestamps :: "stream \<Rightarrow> timestamp list \<Rightarrow> stream" where
  "concat_timestamps s words =
     (let a = ts_next s in
      s\<lparr>ts_heap := (ts_heap s)(a := ts_heap s (timestamps s) @ words),
        timestamps := a,
        ts_next := Suc a\<rparr>)"

text \<open>The \<^verbatim>\<open>forEach\<close> over the final results. \<^verbatim>\<open>result.alternatives[0].timestamps\<close> of a
  result with no alternative raises a \<^verbatim>\<open>TypeError\<close> (\<open>None\<close>).\<close>

fun capture_timestamps :: "stream \<Rightarrow> result list \<Rightarrow> stream option" where
  "capture_timestamps s [] = Some s"
| "capture_timestamps s (r # rs) =
     (case res_alternatives r of
        [] \<Rightarrow> None
      | alt # alts \<Rightarrow> capture_timestamps (concat_timestamps s (alt_timestamps alt)) rs)"

definition no_timestamps_error :: error where
  "no_timestamps_error =
     \<lparr>err_message = ''SpeakerStream requires that timestamps and speaker_labels be enabled'',
      err_name = ERROR_NO_TIMESTAMPS,
      err_speaker_label = None,
      err_timestamp = None,
      err_speaker_labels = None,
      err_timestamps = None\<rparr>"

text \<open>\<^verbatim>\<open>handleResults\<close>. The module \<^verbatim>\<open>./no-timestamps\<close> is not part of the sources at
  hand, so its function is the parameter \<open>noTimestamps\<close>.\<close>

definition handleResults ::
  "(data \<Rightarrow> bool) \<Rightarrow> stream \<Rightarrow> data \<Rightarrow> (stream \<times> event list) option" where
  "handleResults noTimestamps s d =
     (if noTimestamps d then Some (s, [Error no_timestamps_error])
      else
        (case data_results d of
           None \<Rightarrow> None
         | Some rs \<Rightarrow>
             (case capture_timestamps s (filter res_final rs) of
                None \<Rightarrow> None
              | Some s' \<Rightarrow> Some (s', []))))"

text \<open>The comparator, with its three results \<open>-1\<close>, \<open>0\<close> and \<open>1\<close>.\<close>

definition speakerLabelsSorter :: "label \<Rightarrow> label \<Rightarrow> int" where
  "speakerLabelsSorter a b =
     (if label_from a = label_from b then
        (if label_to a = label_to b then 0
         else if label_to a < label_to b then - 1 else 1)
      else if label_from a < label_from b then - 1 else 1)"

text \<open>
  Two library functions. \<^verbatim>\<open>Array.prototype.sort\<close> is a stable sort (ECMAScript 2019):
  the model is the stable insertion sort that places \<open>x\<close> before the first \<open>y\<close> the
  comparator does not put before it. lodash's \<^verbatim>\<open>pullAllWith(array, values, comparator)\<close>
  takes each value in turn and removes from \<open>array\<close> every element the comparator
  matches with it; with \<open>values\<close> undefined it leaves the array alone, and so does
  \<^verbatim>\<open>push.apply\<close> with undefined arguments: \<open>values_of\<close> reads an absent array as no
  values.
\<close>

fun array_sort_insert :: "('a \<Rightarrow> 'a \<Rightarrow> int) \<Rightarrow> 'a \<Rightarrow> 'a list \<Rightarrow> 'a list" where
  "array_sort_insert cmp x [] = [x]"
| "array_sort_insert cmp x (y # ys) =
     (if cmp x y \<le> 0 then x # y # ys else y # array_sort_insert cmp x ys)"

definition array_sort :: "('a \<Rightarrow> 'a \<Rightarrow> int) \<Rightarrow> 'a list \<Rightarrow> 'a list" where
  "array_sort cmp xs = foldr (array_sort_insert cmp) xs []"

definition pullAllWith :: "'a list \<Rightarrow> 'b list \<Rightarrow> ('a \<Rightarrow> 'b \<Rightarrow> bool) \<Rightarrow> 'a list" where
  "pullAllWith array vals comparator =
     fold (\<lambda>v arr. filter (\<lambda>x. \<not> comparator x v) arr) vals array"

definition values_of :: "'a list option \<Rightarrow> 'a list" where
  "values_of arr = (case arr of None \<Rightarrow> [] | Some xs \<Rightarrow> xs)"

text \<open>\<^verbatim>\<open>handleSpeakerLabels\<close> works on the array \<^verbatim>\<open>this.speaker_labels\<close> refers to, in
  place: all three steps write to the same address.\<close>

definition write_labels :: "stream \<Rightarrow> label list \<Rightarrow> stream" where
  "write_labels s ls = s\<lparr>sl_heap := (sl_heap s)(speaker_labels s := ls)\<rparr>"

definition handleSpeakerLabels :: "stream \<Rightarrow> data \<Rightarrow> stream" where
  "handleSpeakerLabels s d =
     (let new_labels = values_of (data_speaker_labels d);
          s1 = write_labels s
                 (pullAllWith (labels_of s) new_labels
                    (\<lambda>old nw. label_from old = label_from nw \<and> label_to old = label_to nw));
          s2 = write_labels s1 (labels_of s1 @ new_labels);
          s3 = write_labels s2 (array_sort speakerLabelsSorter (labels_of s2))
      in s3)"

definition transform :: "(data \<Rightarrow> bool) \<Rightarrow> stream \<Rightarrow> data \<Rightarrow> (stream \<times> event list) option" where
  "transform noTimestamps s d =
     (case (if data_results d \<noteq> None then handleResults noTimestamps s d else Some (s, [])) of
        None \<Rightarrow> None
      | Some (s1, emitted1) \<Rightarrow>
          (let s2 = (if data_speaker_labels d \<noteq> None then handleSpeakerLabels s1 d else s1) in
           case process s2 of
             None \<Rightarrow> None
           | Some (s3, emitted3) \<Rightarrow> Some (s3, emitted1 @ emitted3)))"

text \<open>Numbers in a message: the decimal digits of a length.\<close>

fun number_to_string :: "nat \<Rightarrow> string" where
  "number_to_string n =
     (if n < 10 then [''0123456789'' ! n]
      else number_to_string (n div 10) @ [''0123456789'' ! (n mod 10)])"

definition flush_error :: "stream \<Rightarrow> string \<Rightarrow> error" where
  "flush_error s msg =
     \<lparr>err_message = msg,
      err_name = ERROR_MISMATCH,
      err_speaker_label = None,
      err_timestamp = None,
      err_speaker_labels = Some (speaker_labels s),
      err_timestamps = Some (timestamps s)\<rparr>"

definition flush :: "stream \<Rightarrow> stream \<times> event list" where
  "flush s =
     (if length (timestamps_of s) \<noteq> length (labels_of s) then
        (let msg =
           (if length (timestamps_of s) \<noteq> 0 \<and> \<not> length (labels_of s) \<noteq> 0 then
              ''No speaker_labels found. SpeakerStream requires speaker_labels to be enabled.''
            else
              ''Mismatch between number of word timestamps ('' @
                number_to_string (length (timestamps_of s)) @
                '') and number of speaker_labels ('' @
                number_to_string (length (labels_of s)) @
                '') - some data may be lost.'')
         in (s, [Error (flush_error s msg)]))
      else (s, []))"

text \<open>A session: the messages of a list, one \<^verbatim>\<open>_transform\<close> each.\<close>

fun transform_all :: "(data \<Rightarrow> bool) \<Rightarrow> stream \<Rightarrow> data list \<Rightarrow> stream option" where
  "transform_all noTimestamps s [] = Some s"
| "transform_all noTimestamps s (d # ds) =
     (case transform noTimestamps s d of
        None \<Rightarrow> None
      | Some (s', emitted) \<Rightarrow> transform_all noTimestamps s' ds)"

section \<open>Notions the properties are stated with\<close>

text \<open>Index \<open>i\<close> of the label array is misaligned: there is no timestamp at \<open>i\<close>, or its
  from or its to is not the label's.\<close>

definition misaligned :: "stream \<Rightarrow> nat \<Rightarrow> bool" where
  "misaligned s i \<longleftrightarrow>
     i < length (labels_of s) \<and>
     (\<not> i < length (timestamps_of s) \<or>
      FROM (timestamps_of s ! i) \<noteq> label_from (labels_of s ! i) \<or>
      TO (timestamps_of s ! i) \<noteq> label_to (labels_of s ! i))"

text \<open>The timestamp list of an output result is \<^verbatim>\<open>alternatives[0].timestamps\<close>.\<close>

definition segment_timestamps :: "segment \<Rightarrow> timestamp list" where
  "segment_timestamps seg =
     (case seg_alternatives seg of [] \<Rightarrow> [] | alt # alts \<Rightarrow> alt_timestamps alt)"

text \<open>The index at which each result of a list starts, when the first starts at \<open>k\<close>
  and each takes as many indices as it has timestamps.\<close>

fun starts :: "nat \<Rightarrow> segment list \<Rightarrow> nat list" where
  "starts k [] = []"
| "starts k (seg # segs) = k # starts (k + length (segment_timestamps seg)) segs"

text \<open>The indices where the speaker changes: index \<open>0\<close>, and every index whose label
  has another speaker than the label before it.\<close>

definition boundaries :: "label list \<Rightarrow> nat list" where
  "boundaries ls =
     filter (\<lambda>i. i = 0 \<or> speaker (ls ! i) \<noteq> speaker (ls ! (i - 1))) [0..<length ls]"

text \<open>Each word followed by one space.\<close>

definition spoken :: "timestamp list \<Rightarrow> string" where
  "spoken ts = concat (map (\<lambda>t. WORD t @ '' '') ts)"

text \<open>What the reduction has built after the pairs \<open>ps\<close>: the invariant of
  \<^verbatim>\<open>pairs.reduce\<close>.\<close>

definition grouped :: "js_value \<Rightarrow> (timestamp \<times> label) list \<Rightarrow> segment list \<Rightarrow> bool" where
  "grouped fin ps segs \<longleftrightarrow>
     starts 0 segs = boundaries (map snd ps) \<and>
     map seg_speaker segs = map (\<lambda>i. speaker (map snd ps ! i)) (boundaries (map snd ps)) \<and>
     concat (map segment_timestamps segs) = map fst ps \<and>
     (\<forall>seg \<in> set segs. seg_final seg = fin \<and>
        (\<exists>alt. seg_alternatives seg = [alt] \<and> alt_timestamps alt \<noteq> [] \<and>
               transcript alt = spoken (alt_timestamps alt))) \<and>
     (segs \<noteq> [] \<longrightarrow> seg_speaker (last segs) = speaker (snd (last ps)))"

text \<open>The messages pushed among what was sent out.\<close>

fun pushed :: "event list \<Rightarrow> segmented_result list" where
  "pushed [] = []"
| "pushed (Data r # evs) = r # pushed evs"
| "pushed (Error e # evs) = pushed evs"

text \<open>Two labels with the same span, and a message that carries speaker labels only.\<close>

definition same_span :: "label \<Rightarrow> label \<Rightarrow> bool" where
  "same_span a b \<longleftrightarrow> label_from a = label_from b \<and> label_to a = label_to b"

definition label_update :: "label list \<Rightarrow> data" where
  "label_update ls = \<lparr>data_results = None, data_speaker_labels = Some ls\<rparr>"

text \<open>Two invariants of the streams a session reaches: the current timestamp array is at
  an address that has been allocated, and the label array is in the order of the
  comparator.\<close>

definition allocated :: "stream \<Rightarrow> bool" where
  "allocated s \<longleftrightarrow> timestamps s < ts_next s"

definition labels_sorted :: "stream \<Rightarrow> bool" where
  "labels_sorted s \<longleftrightarrow> sorted_wrt (\<lambda>a b. speakerLabelsSorter a b \<le> 0) (labels_of s)"

section \<open>Example sessions\<close>

text \<open>Modelled from the spec: the module \<^verbatim>\<open>./no-timestamps\<close> is not among the sources.
  The spec has it as the precondition checker, ``a pure function taking an input event and
  returning whether it is missing required timestamp/speaker-label capability''. The
  theorems below hold for every such function; \<open>missing_timestamps\<close> is the one the examples
  run with: some result whose first alternative has no word timestamps.\<close>

definition missing_timestamps :: "data \<Rightarrow> bool" where
  "missing_timestamps d =
     (case data_results d of
        None \<Rightarrow> False
      | Some rs \<Rightarrow>
          list_ex (\<lambda>r. case res_alternatives r of
                          [] \<Rightarrow> False
                        | alt # alts \<Rightarrow> alt_timestamps alt = []) rs)"

text \<open>The words and labels of the scenarios that the theorems below are tried on. A
  stream that has taken one message with results and any number of messages with
  speaker labels has its timestamps in the array at address \<open>1\<close> and its labels in the
  array at address \<open>0\<close>.\<close>

definition example_label :: "rat \<Rightarrow> rat \<Rightarrow> nat \<Rightarrow> bool \<Rightarrow> label" where
  "example_label f t sp fin =
     \<lparr>label_from = f, label_to = t, speaker = sp, confidence = 641 / 1000, final = fin\<rparr>"

definition three_words :: "timestamp list" where
  "three_words = [(''Yes'', 0, 1 / 2), (''there'', 1 / 2, 1), (''right'', 1, 3 / 2)]"

definition stream_with :: "timestamp list \<Rightarrow> label list \<Rightarrow> stream" where
  "stream_with ts ls =
     \<lparr>timestamps = 1, speaker_labels = 0,
      ts_heap = (\<lambda>a. [])(1 := ts), sl_heap = (\<lambda>a. [])(0 := ls), ts_next = 2\<rparr>"

text \<open>Scenario B: three words, the first two of speaker 1 and the third of speaker 2;
  the messages that lead a new stream there (the labels not in order); the message pushed
  there; and the same contents in other arrays, at other addresses.\<close>

definition scenario_B :: stream where
  "scenario_B =
     stream_with three_words
       [example_label 0 (1 / 2) 1 False, example_label (1 / 2) 1 1 False,
        example_label 1 (3 / 2) 2 True]"

definition scenario_B_messages :: "data list" where
  "scenario_B_messages =
     [\<lparr>data_results =
         Some [\<lparr>res_final = True,
                res_alternatives =
                  [\<lparr>transcript = ''Yes there right'', alt_timestamps = three_words\<rparr>]\<rparr>],
       data_speaker_labels = None\<rparr>,
      label_update
        [example_label 0 (1 / 2) 1 False, example_label 1 (3 / 2) 2 True,
         example_label (1 / 2) 1 1 False]]"

definition scenario_B_result :: segmented_result where
  "scenario_B_result =
     \<lparr>results =
        [\<lparr>seg_speaker = 1,
          seg_alternatives =
            [\<lparr>transcript = ''Yes there '',
              alt_timestamps = [(''Yes'', 0, 1 / 2), (''there'', 1 / 2, 1)]\<rparr>],
          seg_final = JSBoolean True\<rparr>,
         \<lparr>seg_speaker = 2,
          seg_alternatives =
            [\<lparr>transcript = ''right '', alt_timestamps = [(''right'', 1, 3 / 2)]\<rparr>],
          seg_final = JSBoolean True\<rparr>],
      result_index = 0\<rparr>"

definition scenario_B_moved :: stream where
  "scenario_B_moved =
     \<lparr>timestamps = 5, speaker_labels = 3,
      ts_heap = (\<lambda>a. three_words),
      sl_heap = (\<lambda>a. [example_label 0 (1 / 2) 1 False, example_label (1 / 2) 1 1 False,
        example_label 1 (3 / 2) 2 True]),
      ts_next = 9\<rparr>"

text \<open>Scenario C: the second label does not end where the second word ends. The
  messages that lead a new stream there, the error raised there, and the stream after one
  more label has come in.\<close>

definition scenario_C :: stream where
  "scenario_C =
     stream_with [(''Yes'', 0, 1 / 2), (''there'', 1 / 2, 1)]
       [example_label 0 (1 / 2) 1 False, example_label (1 / 2) (3 / 4) 1 False]"

definition scenario_C_messages :: "data list" where
  "scenario_C_messages =
     [\<lparr>data_results =
         Some [\<lparr>res_final = True,
                res_alternatives =
                  [\<lparr>transcript = ''Yes there'',
                    alt_timestamps = [(''Yes'', 0, 1 / 2), (''there'', 1 / 2, 1)]\<rparr>]\<rparr>],
       data_speaker_labels = None\<rparr>,
      label_update [example_label 0 (1 / 2) 1 False, example_label (1 / 2) (3 / 4) 1 False]]"

definition scenario_C_error :: error where
  "scenario_C_error =
     \<lparr>err_message = ''Mismatch between speaker_label and word timestamp'',
      err_name = ERROR_MISMATCH,
      err_speaker_label = Some (example_label (1 / 2) (3 / 4) 1 False),
      err_timestamp = Some (''there'', 1 / 2, 1),
      err_speaker_labels = Some 0,
      err_timestamps = Some 1\<rparr>"

definition scenario_C_later :: stream where
  "scenario_C_later =
     stream_with [(''Yes'', 0, 1 / 2), (''there'', 1 / 2, 1)]
       [example_label 0 (1 / 2) 1 False, example_label (1 / 2) (3 / 4) 1 False,
        example_label (1 / 2) 1 1 True]"

text \<open>Scenario D: the three words and the first two labels are in; the next message has a
  result without word timestamps, and the third label.\<close>

definition scenario_D :: stream where
  "scenario_D =
     stream_with three_words
       [example_label 0 (1 / 2) 1 False, example_label (1 / 2) 1 1 False]"

definition scenario_D_message :: data where
  "scenario_D_message =
     \<lparr>data_results =
        Some [\<lparr>res_final = True,
               res_alternatives = [\<lparr>transcript = ''indeed'', alt_timestamps = []\<rparr>]\<rparr>],
      data_speaker_labels = Some [example_label 1 (3 / 2) 2 True]\<rparr>"

text \<open>Scenario E: five words and three labels, and the message pushed there.\<close>

definition scenario_E :: stream where
  "scenario_E =
     stream_with (three_words @ [(''that'', 3 / 2, 2), (''is'', 2, 5 / 2)])
       [example_label 0 (1 / 2) 1 False, example_label (1 / 2) 1 1 False,
        example_label 1 (3 / 2) 2 False]"

definition scenario_E_result :: segmented_result where
  "scenario_E_result =
     \<lparr>results =
        [\<lparr>seg_speaker = 1,
          seg_alternatives =
            [\<lparr>transcript = ''Yes there '',
              alt_timestamps = [(''Yes'', 0, 1 / 2), (''there'', 1 / 2, 1)]\<rparr>],
          seg_final = JSBoolean False\<rparr>,
         \<lparr>seg_speaker = 2,
          seg_alternatives =
            [\<lparr>transcript = ''right '', alt_timestamps = [(''right'', 1, 3 / 2)]\<rparr>],
          seg_final = JSBoolean False\<rparr>],
      result_index = 0\<rparr>"

section \<open>Properties\<close>

lemma mismatched_at_index:
  "mismatched (at_index ts i) l \<longleftrightarrow>
     (\<not> i < length ts \<or> FROM (ts ! i) \<noteq> label_from l \<or> TO (ts ! i) \<noteq> label_to l)"
  by (simp add: mismatched_def at_index_def)

lemma map_pairs_errored:
  "snd (map_pairs s i ls True) = ([], True)"
proof (induction ls arbitrary: i)
  case Nil
  show ?case by simp
next
  case (Cons l ls)
  have cb: "snd (pair_callback s True l i) = ([], True)"
    by (simp add: pair_callback_def Let_def split: option.split)
  obtain p where p: "pair_callback s True l i = (p, [], True)"
    using cb by (cases "pair_callback s True l i") auto
  obtain ps where ps: "map_pairs s (Suc i) ls True = (ps, [], True)"
    using Cons.IH [of "Suc i"] by (cases "map_pairs s (Suc i) ls True") auto
  show ?case by (simp add: p ps)
qed

lemma map_pairs_aligned:
  assumes "\<forall>k < length ls. \<not> mismatched (at_index (timestamps_of s) (i + k)) (ls ! k)"
  shows "map_pairs s i ls errored =
           (map Some (zip (drop i (timestamps_of s)) ls), [], errored)"
  using assms
proof (induction ls arbitrary: i)
  case Nil
  show ?case by simp
next
  case (Cons l ls)
  from Cons.prems have here: "\<not> mismatched (at_index (timestamps_of s) i) l"
    by force
  then have lt: "i < length (timestamps_of s)"
    by (simp add: mismatched_at_index)
  have cb: "pair_callback s errored l i = (Some (timestamps_of s ! i, l), [], errored)"
    using here lt by (simp add: pair_callback_def Let_def at_index_def)
  have "\<forall>k < length ls. \<not> mismatched (at_index (timestamps_of s) (Suc i + k)) (ls ! k)"
  proof (intro allI impI)
    fix k assume "k < length ls"
    then have "Suc k < length (l # ls)" by simp
    with Cons.prems have "\<not> mismatched (at_index (timestamps_of s) (i + Suc k)) ((l # ls) ! Suc k)"
      by blast
    then show "\<not> mismatched (at_index (timestamps_of s) (Suc i + k)) (ls ! k)" by simp
  qed
  then have rest: "map_pairs s (Suc i) ls errored =
      (map Some (zip (drop (Suc i) (timestamps_of s)) ls), [], errored)"
    by (rule Cons.IH)
  have dr: "drop i (timestamps_of s) = timestamps_of s ! i # drop (Suc i) (timestamps_of s)"
    using lt by (simp add: Cons_nth_drop_Suc)
  show ?case by (simp add: cb rest dr)
qed

lemma map_pairs_first_mismatch:
  assumes "k < length ls"
    and "mismatched (at_index (timestamps_of s) (i + k)) (ls ! k)"
    and "\<forall>j < k. \<not> mismatched (at_index (timestamps_of s) (i + j)) (ls ! j)"
  shows "snd (map_pairs s i ls False) =
           ([Error (mismatch_error s (ls ! k) (at_index (timestamps_of s) (i + k)))], True)"
  using assms
proof (induction ls arbitrary: i k)
  case Nil
  then show ?case by simp
next
  case (Cons l ls)
  show ?case
  proof (cases k)
    case 0
    with Cons.prems have mm: "mismatched (at_index (timestamps_of s) i) l" by simp
    have cb: "pair_callback s False l i =
        (None, [Error (mismatch_error s l (at_index (timestamps_of s) i))], True)"
      using mm by (simp add: pair_callback_def Let_def)
    obtain ps where ps: "map_pairs s (Suc i) ls True = (ps, [], True)"
      using map_pairs_errored [of s "Suc i" ls] by (cases "map_pairs s (Suc i) ls True") auto
    show ?thesis using 0 by (simp add: cb ps)
  next
    case (Suc k')
    from Cons.prems Suc have here: "\<not> mismatched (at_index (timestamps_of s) i) l"
      by force
    then have lt: "i < length (timestamps_of s)"
      by (simp add: mismatched_at_index)
    have cb: "pair_callback s False l i = (Some (timestamps_of s ! i, l), [], False)"
      using here lt by (simp add: pair_callback_def Let_def at_index_def)
    have k': "k' < length ls" using Cons.prems Suc by simp
    have mm: "mismatched (at_index (timestamps_of s) (Suc i + k')) (ls ! k')"
      using Cons.prems Suc by simp
    have before: "\<forall>j < k'. \<not> mismatched (at_index (timestamps_of s) (Suc i + j)) (ls ! j)"
    proof (intro allI impI)
      fix j assume "j < k'"
      then have "Suc j < k" using Suc by simp
      with Cons.prems have "\<not> mismatched (at_index (timestamps_of s) (i + Suc j)) ((l # ls) ! Suc j)"
        by blast
      then show "\<not> mismatched (at_index (timestamps_of s) (Suc i + j)) (ls ! j)" by simp
    qed
    have rest: "snd (map_pairs s (Suc i) ls False) =
        ([Error (mismatch_error s (ls ! k') (at_index (timestamps_of s) (Suc i + k')))], True)"
      using k' mm before by (rule Cons.IH)
    obtain ps where ps: "map_pairs s (Suc i) ls False =
        (ps, [Error (mismatch_error s (ls ! k') (at_index (timestamps_of s) (Suc i + k')))], True)"
      using rest by (cases "map_pairs s (Suc i) ls False") auto
    show ?thesis using Suc by (simp add: cb ps)
  qed
qed

lemma misaligned_mismatched:
  "misaligned s i \<longleftrightarrow>
     i < length (labels_of s) \<and> mismatched (at_index (timestamps_of s) i) (labels_of s ! i)"
  by (simp add: misaligned_def mismatched_at_index)

lemma process_first_misaligned:
  assumes "misaligned s k" and "\<forall>j < k. \<not> misaligned s j"
  shows "process s =
     Some (s, [Error (mismatch_error s (labels_of s ! k) (at_index (timestamps_of s) k))])"
proof -
  have k: "k < length (labels_of s)"
    and mm: "mismatched (at_index (timestamps_of s) (0 + k)) (labels_of s ! k)"
    using assms(1) by (simp_all add: misaligned_mismatched)
  have before: "\<forall>j < k. \<not> mismatched (at_index (timestamps_of s) (0 + j)) (labels_of s ! j)"
    using assms(2) k by (simp add: misaligned_mismatched)
  have "snd (map_pairs s 0 (labels_of s) False) =
      ([Error (mismatch_error s (labels_of s ! k) (at_index (timestamps_of s) (0 + k)))], True)"
    using k mm before by (rule map_pairs_first_mismatch)
  then obtain ps where "map_pairs s 0 (labels_of s) False =
      (ps, [Error (mismatch_error s (labels_of s ! k) (at_index (timestamps_of s) k))], True)"
    by (cases "map_pairs s 0 (labels_of s) False") auto
  then show ?thesis by (simp add: process_def)
qed

lemma reduce_snoc:
  "reduce f (xs @ [x]) acc = (case reduce f xs acc of None \<Rightarrow> None | Some a \<Rightarrow> f a x)"
  by (induction xs arbitrary: acc) (auto split: option.split)

lemma starts_snoc:
  "starts k (segs @ [seg]) =
     starts k segs @ [k + length (concat (map segment_timestamps segs))]"
  by (induction segs arbitrary: k) auto

lemma starts_Nil_iff: "starts k segs = [] \<longleftrightarrow> segs = []"
  by (cases segs) auto

lemma boundaries_Nil_iff: "boundaries ls = [] \<longleftrightarrow> ls = []"
proof (cases ls)
  case Nil
  then show ?thesis by (simp add: boundaries_def)
next
  case (Cons l ls')
  then have "0 \<in> set (boundaries ls)" by (simp add: boundaries_def)
  then show ?thesis using Cons by auto
qed

lemma boundaries_less: "i \<in> set (boundaries ls) \<Longrightarrow> i < length ls"
  by (simp add: boundaries_def)

lemma boundaries_snoc:
  "boundaries (ls @ [l]) =
     boundaries ls @ (if ls = [] \<or> speaker l \<noteq> speaker (last ls) then [length ls] else [])"
proof -
  have old: "filter (\<lambda>i. i = 0 \<or> speaker ((ls @ [l]) ! i) \<noteq> speaker ((ls @ [l]) ! (i - 1)))
                [0..<length ls] = boundaries ls"
    unfolding boundaries_def
    by (rule filter_cong) (auto simp: nth_append)
  have new: "(length ls = 0 \<or> speaker ((ls @ [l]) ! length ls) \<noteq>
                speaker ((ls @ [l]) ! (length ls - 1))) \<longleftrightarrow>
             (ls = [] \<or> speaker l \<noteq> speaker (last ls))"
    by (cases "ls = []") (auto simp: nth_append last_conv_nth)
  have "boundaries (ls @ [l]) =
      filter (\<lambda>i. i = 0 \<or> speaker ((ls @ [l]) ! i) \<noteq> speaker ((ls @ [l]) ! (i - 1)))
        ([0..<length ls] @ [length ls])"
    by (simp add: boundaries_def)
  also have "\<dots> = boundaries ls @
      (if ls = [] \<or> speaker l \<noteq> speaker (last ls) then [length ls] else [])"
    using old new by simp
  finally show ?thesis .
qed

lemma speakers_at_boundaries_snoc:
  "map (\<lambda>i. speaker ((ls @ [l]) ! i)) (boundaries ls) = map (\<lambda>i. speaker (ls ! i)) (boundaries ls)"
  by (rule map_cong) (auto simp: nth_append dest: boundaries_less)

lemma grouped_Nil: "grouped fin [] []"
  by (simp add: grouped_def boundaries_def)

lemma grouped_empty_iff: "grouped fin ps segs \<Longrightarrow> segs = [] \<longleftrightarrow> ps = []"
  unfolding grouped_def
  by (metis starts_Nil_iff boundaries_Nil_iff map_is_Nil_conv)

lemma grouped_new_speaker:
  assumes g: "grouped fin ps segs"
    and new: "segs = [] \<or> seg_speaker (last segs) \<noteq> speaker l"
  shows "grouped fin (ps @ [(t, l)])
           (segs @ [\<lparr>seg_speaker = speaker l,
                     seg_alternatives = [\<lparr>transcript = WORD t @ '' '', alt_timestamps = [t]\<rparr>],
                     seg_final = fin\<rparr>])"
proof -
  let ?ls = "map snd ps"
  have len: "length (concat (map segment_timestamps segs)) = length ?ls"
    using g by (simp add: grouped_def)
  have emp: "segs = [] \<longleftrightarrow> ps = []"
    using g by (rule grouped_empty_iff)
  have lastl: "ps \<noteq> [] \<Longrightarrow> last ?ls = snd (last ps)"
    by (simp add: last_map)
  have cond: "?ls = [] \<or> speaker l \<noteq> speaker (last ?ls)"
  proof (cases "ps = []")
    case True
    then show ?thesis by simp
  next
    case False
    then have "segs \<noteq> []" using emp by simp
    then have "seg_speaker (last segs) = speaker (snd (last ps))"
      using g by (simp add: grouped_def)
    then show ?thesis using new \<open>segs \<noteq> []\<close> lastl [OF False] by auto
  qed
  have b: "boundaries (?ls @ [l]) = boundaries ?ls @ [length ?ls]"
    using cond by (simp add: boundaries_snoc)
  have ms: "map snd (ps @ [(t, l)]) = ?ls @ [l]"
    by simp
  have st: "starts 0 segs = boundaries ?ls"
    using g by (simp add: grouped_def)
  have sp: "map seg_speaker segs = map (\<lambda>i. speaker (?ls ! i)) (boundaries ?ls)"
    using g by (simp add: grouped_def)
  have ct: "concat (map segment_timestamps segs) = map fst ps"
    using g by (simp add: grouped_def)
  have al: "\<forall>seg \<in> set segs. seg_final seg = fin \<and>
        (\<exists>alt. seg_alternatives seg = [alt] \<and> alt_timestamps alt \<noteq> [] \<and>
               transcript alt = spoken (alt_timestamps alt))"
    using g by (simp add: grouped_def)
  show ?thesis
    unfolding grouped_def
  proof (intro conjI)
    show "starts 0 (segs @ [\<lparr>seg_speaker = speaker l,
                     seg_alternatives = [\<lparr>transcript = WORD t @ '' '', alt_timestamps = [t]\<rparr>],
                     seg_final = fin\<rparr>]) = boundaries (map snd (ps @ [(t, l)]))"
      by (simp only: starts_snoc ms b st len) simp
  next
    show "map seg_speaker (segs @ [\<lparr>seg_speaker = speaker l,
                     seg_alternatives = [\<lparr>transcript = WORD t @ '' '', alt_timestamps = [t]\<rparr>],
                     seg_final = fin\<rparr>]) =
          map (\<lambda>i. speaker (map snd (ps @ [(t, l)]) ! i)) (boundaries (map snd (ps @ [(t, l)])))"
    proof -
      have nl: "(?ls @ [l]) ! length ps = l"
        by (simp add: nth_append)
      show ?thesis
        unfolding ms b using sp by (simp add: speakers_at_boundaries_snoc nl)
    qed
  next
    show "concat (map segment_timestamps (segs @ [\<lparr>seg_speaker = speaker l,
                     seg_alternatives = [\<lparr>transcript = WORD t @ '' '', alt_timestamps = [t]\<rparr>],
                     seg_final = fin\<rparr>])) = map fst (ps @ [(t, l)])"
      using ct by (simp add: segment_timestamps_def)
  next
    show "\<forall>seg \<in> set (segs @ [\<lparr>seg_speaker = speaker l,
                     seg_alternatives = [\<lparr>transcript = WORD t @ '' '', alt_timestamps = [t]\<rparr>],
                     seg_final = fin\<rparr>]). seg_final seg = fin \<and>
        (\<exists>alt. seg_alternatives seg = [alt] \<and> alt_timestamps alt \<noteq> [] \<and>
               transcript alt = spoken (alt_timestamps alt))"
      using al by (auto simp: spoken_def)
  next
    show "segs @ [\<lparr>seg_speaker = speaker l,
                     seg_alternatives = [\<lparr>transcript = WORD t @ '' '', alt_timestamps = [t]\<rparr>],
                     seg_final = fin\<rparr>] \<noteq> [] \<longrightarrow>
          seg_speaker (last (segs @ [\<lparr>seg_speaker = speaker l,
                     seg_alternatives = [\<lparr>transcript = WORD t @ '' '', alt_timestamps = [t]\<rparr>],
                     seg_final = fin\<rparr>])) = speaker (snd (last (ps @ [(t, l)])))"
      by simp
  qed
qed


lemma spoken_snoc: "spoken (ts @ [t]) = spoken ts @ WORD t @ '' ''"
  by (simp add: spoken_def)

lemma grouped_same_speaker:
  assumes g: "grouped fin ps (init @ [sg])"
    and same: "seg_speaker sg = speaker l"
    and alt: "seg_alternatives sg = alt # alts"
  shows "grouped fin (ps @ [(t, l)])
           (init @ [sg\<lparr>seg_alternatives :=
                        alt\<lparr>transcript := transcript alt @ WORD t @ '' '',
                            alt_timestamps := alt_timestamps alt @ [t]\<rparr> # alts\<rparr>])"
proof -
  let ?ls = "map snd ps"
  let ?alt' = "alt\<lparr>transcript := transcript alt @ WORD t @ '' '',
                     alt_timestamps := alt_timestamps alt @ [t]\<rparr>"
  let ?sg' = "sg\<lparr>seg_alternatives := ?alt' # alts\<rparr>"
  have ne: "ps \<noteq> []"
    using grouped_empty_iff [OF g] by simp
  have lastsp: "seg_speaker sg = speaker (snd (last ps))"
    using g by (simp add: grouped_def)
  have lastl: "last ?ls = snd (last ps)"
    using ne by (simp add: last_map)
  have b: "boundaries (?ls @ [l]) = boundaries ?ls"
    using ne same lastsp lastl by (simp add: boundaries_snoc)
  have ms: "map snd (ps @ [(t, l)]) = ?ls @ [l]"
    by simp
  have st: "starts 0 (init @ [sg]) = boundaries ?ls"
    using g unfolding grouped_def by blast
  have sp: "map seg_speaker (init @ [sg]) = map (\<lambda>i. speaker (?ls ! i)) (boundaries ?ls)"
    using g unfolding grouped_def by blast
  have ct: "concat (map segment_timestamps (init @ [sg])) = map fst ps"
    using g unfolding grouped_def by blast
  have al: "\<forall>seg \<in> set (init @ [sg]). seg_final seg = fin \<and>
        (\<exists>a. seg_alternatives seg = [a] \<and> alt_timestamps a \<noteq> [] \<and>
               transcript a = spoken (alt_timestamps a))"
    using g unfolding grouped_def by blast
  have sgal: "seg_final sg = fin \<and> alts = [] \<and> alt_timestamps alt \<noteq> [] \<and>
      transcript alt = spoken (alt_timestamps alt)"
    using al alt by auto
  have tsg: "segment_timestamps ?sg' = segment_timestamps sg @ [t]"
    using alt by (simp add: segment_timestamps_def)
  show ?thesis
    unfolding grouped_def
  proof (intro conjI)
    show "starts 0 (init @ [?sg']) = boundaries (map snd (ps @ [(t, l)]))"
      unfolding ms b using st by (simp add: starts_snoc)
  next
    show "map seg_speaker (init @ [?sg']) =
          map (\<lambda>i. speaker (map snd (ps @ [(t, l)]) ! i)) (boundaries (map snd (ps @ [(t, l)])))"
      unfolding ms b using sp by (simp add: speakers_at_boundaries_snoc)
  next
    show "concat (map segment_timestamps (init @ [?sg'])) = map fst (ps @ [(t, l)])"
      using ct tsg by simp
  next
    show "\<forall>seg \<in> set (init @ [?sg']). seg_final seg = fin \<and>
        (\<exists>a. seg_alternatives seg = [a] \<and> alt_timestamps a \<noteq> [] \<and>
               transcript a = spoken (alt_timestamps a))"
      using al sgal by (auto simp: spoken_snoc)
  next
    show "init @ [?sg'] \<noteq> [] \<longrightarrow>
          seg_speaker (last (init @ [?sg'])) = speaker (snd (last (ps @ [(t, l)])))"
      using same by simp
  qed
qed

lemma reduce_grouped:
  "\<exists>segs. reduce (reduce_callback fin) (map Some ps) [] = Some segs \<and> grouped fin ps segs"
proof (induction ps rule: rev_induct)
  case Nil
  show ?case by (simp add: grouped_Nil)
next
  case (snoc p ps)
  then obtain segs where red: "reduce (reduce_callback fin) (map Some ps) [] = Some segs"
    and g: "grouped fin ps segs" by blast
  obtain t l where p: "p = (t, l)" by (cases p)
  have step: "reduce (reduce_callback fin) (map Some (ps @ [p])) [] =
      reduce_callback fin segs (Some (t, l))"
    by (simp add: reduce_snoc red p)
  show ?case
  proof (cases "segs = [] \<or> seg_speaker (last segs) \<noteq> speaker l")
    case True
    then have "reduce_callback fin segs (Some (t, l)) =
        Some (segs @ [\<lparr>seg_speaker = speaker l,
                     seg_alternatives = [\<lparr>transcript = WORD t @ '' '', alt_timestamps = [t]\<rparr>],
                     seg_final = fin\<rparr>])"
      by (simp add: reduce_callback_def)
    then show ?thesis
      using step grouped_new_speaker [OF g True, of t] p by simp
  next
    case False
    then have ne: "segs \<noteq> []" and same: "seg_speaker (last segs) = speaker l"
      by simp_all
    obtain init sg where segs: "segs = init @ [sg]"
      using ne by (cases segs rule: rev_cases) auto
    have "sg \<in> set segs" using segs by simp
    then obtain alt where alt: "seg_alternatives sg = [alt]"
      using g unfolding grouped_def by blast
    have "reduce_callback fin segs (Some (t, l)) =
        Some (init @ [sg\<lparr>seg_alternatives :=
                        alt\<lparr>transcript := transcript alt @ WORD t @ '' '',
                            alt_timestamps := alt_timestamps alt @ [t]\<rparr> # []\<rparr>])"
      using same alt by (simp add: reduce_callback_def segs)
    moreover have "grouped fin (ps @ [(t, l)])
        (init @ [sg\<lparr>seg_alternatives :=
                        alt\<lparr>transcript := transcript alt @ WORD t @ '' '',
                            alt_timestamps := alt_timestamps alt @ [t]\<rparr> # []\<rparr>])"
      using g same alt unfolding segs by (intro grouped_same_speaker) simp_all
    ultimately show ?thesis using step p by simp
  qed
qed

lemma aligned_length:
  assumes "\<forall>i. \<not> misaligned s i"
  shows "length (labels_of s) \<le> length (timestamps_of s)"
proof (rule ccontr)
  assume "\<not> length (labels_of s) \<le> length (timestamps_of s)"
  then have "misaligned s (length (timestamps_of s))"
    by (simp add: misaligned_def)
  with assms show False by blast
qed

lemma process_aligned:
  assumes "\<forall>i. \<not> misaligned s i"
  shows "\<exists>segs. grouped (isFinal s) (zip (timestamps_of s) (labels_of s)) segs \<and>
           reduce (reduce_callback (isFinal s))
             (map Some (zip (timestamps_of s) (labels_of s))) [] = Some segs \<and>
           process s =
             Some (s, if segs = [] then [] else [Data \<lparr>results = segs, result_index = 0\<rparr>])"
proof -
  have "\<forall>k < length (labels_of s).
      \<not> mismatched (at_index (timestamps_of s) (0 + k)) (labels_of s ! k)"
    using assms by (simp add: misaligned_mismatched)
  then have mp: "map_pairs s 0 (labels_of s) False =
      (map Some (zip (drop 0 (timestamps_of s)) (labels_of s)), [], False)"
    by (rule map_pairs_aligned)
  obtain segs where red: "reduce (reduce_callback (isFinal s))
        (map Some (zip (timestamps_of s) (labels_of s))) [] = Some segs"
    and g: "grouped (isFinal s) (zip (timestamps_of s) (labels_of s)) segs"
    using reduce_grouped by blast
  have "process s =
      Some (s, if segs = [] then [] else [Data \<lparr>results = segs, result_index = 0\<rparr>])"
    using mp red by (simp add: process_def)
  with g red show ?thesis by blast
qed

lemma process_returns: "\<exists>evs. process s = Some (s, evs)"
proof (cases "\<exists>i. misaligned s i")
  case True
  then obtain i where "misaligned s i" ..
  then obtain k where "misaligned s k" and "\<forall>j < k. \<not> misaligned s j"
    using exists_least_iff [of "misaligned s"] by blast
  then show ?thesis using process_first_misaligned by blast
next
  case False
  then show ?thesis using process_aligned [of s] by blast
qed

lemma zip_aligned:
  assumes "\<forall>i. \<not> misaligned s i"
  shows "map fst (zip (timestamps_of s) (labels_of s)) =
           take (length (labels_of s)) (timestamps_of s)"
    and "map snd (zip (timestamps_of s) (labels_of s)) = labels_of s"
proof -
  have le: "length (labels_of s) \<le> length (timestamps_of s)"
    using assms by (rule aligned_length)
  show "map fst (zip (timestamps_of s) (labels_of s)) =
           take (length (labels_of s)) (timestamps_of s)"
    by (simp add: map_fst_zip_take min_absorb2 le)
  show "map snd (zip (timestamps_of s) (labels_of s)) = labels_of s"
    using le by (simp add: map_snd_zip_take min_absorb1)
qed

lemma process_pushed:
  assumes p: "process s = Some (s', evs)" and d: "Data r \<in> set evs"
  shows "(\<forall>i. \<not> misaligned s i) \<and> evs = [Data r] \<and> result_index r = 0 \<and>
         grouped (isFinal s) (zip (timestamps_of s) (labels_of s)) (results r)"
proof (cases "\<exists>i. misaligned s i")
  case True
  then obtain k where "misaligned s k" and "\<forall>j < k. \<not> misaligned s j"
    using exists_least_iff [of "misaligned s"] by blast
  then have "process s =
     Some (s, [Error (mismatch_error s (labels_of s ! k) (at_index (timestamps_of s) k))])"
    by (rule process_first_misaligned)
  with p d show ?thesis by auto
next
  case False
  then have al: "\<forall>i. \<not> misaligned s i" by simp
  then obtain segs where g: "grouped (isFinal s) (zip (timestamps_of s) (labels_of s)) segs"
    and ps: "process s =
      Some (s, if segs = [] then [] else [Data \<lparr>results = segs, result_index = 0\<rparr>])"
    using process_aligned [of s] by blast
  from ps p d have "segs \<noteq> []" and "evs = [Data \<lparr>results = segs, result_index = 0\<rparr>]"
    by (auto split: if_splits)
  with d have "r = \<lparr>results = segs, result_index = 0\<rparr>" by simp
  with al g \<open>evs = _\<close> show ?thesis by simp
qed

lemma misaligned_cong:
  "timestamps_of s = timestamps_of t \<Longrightarrow> labels_of s = labels_of t \<Longrightarrow>
     misaligned s i = misaligned t i"
  by (simp add: misaligned_def)

lemma isFinal_cong: "labels_of s = labels_of t \<Longrightarrow> isFinal s = isFinal t"
  by (simp add: isFinal_def)

lemma process_pushed_cong:
  assumes ts: "timestamps_of s = timestamps_of t" and ls: "labels_of s = labels_of t"
  shows "map_option (\<lambda>r. pushed (snd r)) (process s) =
         map_option (\<lambda>r. pushed (snd r)) (process t)"
proof (cases "\<exists>i. misaligned s i")
  case True
  then obtain k where k: "misaligned s k" "\<forall>j < k. \<not> misaligned s j"
    using exists_least_iff [of "misaligned s"] by blast
  then have kt: "misaligned t k" "\<forall>j < k. \<not> misaligned t j"
    using misaligned_cong [OF ts ls] by simp_all
  show ?thesis
    by (simp add: process_first_misaligned [OF k] process_first_misaligned [OF kt])
next
  case False
  then have as: "\<forall>i. \<not> misaligned s i" by simp
  then have at: "\<forall>i. \<not> misaligned t i"
    using misaligned_cong [OF ts ls] by simp
  obtain segs where rs: "reduce (reduce_callback (isFinal s))
        (map Some (zip (timestamps_of s) (labels_of s))) [] = Some segs"
    and ps: "process s =
      Some (s, if segs = [] then [] else [Data \<lparr>results = segs, result_index = 0\<rparr>])"
    using process_aligned [OF as] by blast
  obtain segs' where rt: "reduce (reduce_callback (isFinal t))
        (map Some (zip (timestamps_of t) (labels_of t))) [] = Some segs'"
    and pt: "process t =
      Some (t, if segs' = [] then [] else [Data \<lparr>results = segs', result_index = 0\<rparr>])"
    using process_aligned [OF at] by blast
  have "segs' = segs"
    using rs rt ts ls isFinal_cong [OF ls] by simp
  then show ?thesis by (simp add: ps pt)
qed

lemma process_no_mismatch:
  assumes "process s = Some (s', evs)"
    and "\<forall>e. Error e \<in> set evs \<longrightarrow> err_name e \<noteq> ERROR_MISMATCH"
  shows "(\<forall>i. \<not> misaligned s i) \<and>
         grouped (isFinal s) (zip (timestamps_of s) (labels_of s))
           (concat (map results (pushed evs)))"
proof -
  have al: "\<forall>i. \<not> misaligned s i"
  proof (rule ccontr)
    assume "\<not> (\<forall>i. \<not> misaligned s i)"
    then obtain k where "misaligned s k" and "\<forall>j < k. \<not> misaligned s j"
      using exists_least_iff [of "misaligned s"] by blast
    then have "process s =
       Some (s, [Error (mismatch_error s (labels_of s ! k) (at_index (timestamps_of s) k))])"
      by (rule process_first_misaligned)
    with assms(1) have "Error (mismatch_error s (labels_of s ! k)
        (at_index (timestamps_of s) k)) \<in> set evs"
      by auto
    with assms(2) show False by (auto simp: mismatch_error_def)
  qed
  obtain segs where g: "grouped (isFinal s) (zip (timestamps_of s) (labels_of s)) segs"
    and ps: "process s =
      Some (s, if segs = [] then [] else [Data \<lparr>results = segs, result_index = 0\<rparr>])"
    using process_aligned [OF al] by blast
  have "concat (map results (pushed evs)) = segs"
    using ps assms(1) by (cases "segs = []") auto
  with al g show ?thesis by simp
qed

subsection \<open>Evaluating the examples\<close>

lemmas example_defs =
  scenario_B_def scenario_C_def scenario_E_def stream_with_def three_words_def example_label_def

lemmas process_defs =
  process_def Let_def labels_of_def timestamps_of_def pair_callback_def mismatched_def
  at_index_def mismatch_error_def FROM_def TO_def WORD_def isFinal_def reduce_callback_def

lemma process_scenario_B: "process scenario_B = Some (scenario_B, [Data scenario_B_result])"
  by (simp add: process_defs example_defs scenario_B_result_def)

lemma process_scenario_C:
  "process scenario_C =
     Some (scenario_C,
       [Error \<lparr>err_message = ''Mismatch between speaker_label and word timestamp'',
               err_name = ERROR_MISMATCH,
               err_speaker_label = Some (example_label (1 / 2) (3 / 4) 1 False),
               err_timestamp = Some (''there'', 1 / 2, 1),
               err_speaker_labels = Some 0,
               err_timestamps = Some 1\<rparr>])"
  by (simp add: process_defs example_defs)

lemma process_scenario_E: "process scenario_E = Some (scenario_E, [Data scenario_E_result])"
  by (simp add: process_defs example_defs scenario_E_result_def)

lemmas transform_defs =
  transform_def handleResults_def missing_timestamps_def SpeakerStream_def
  concat_timestamps_def handleSpeakerLabels_def write_labels_def pullAllWith_def
  array_sort_def speakerLabelsSorter_def values_of_def label_update_def no_timestamps_error_def

lemma transform_all_scenario_B:
  "transform_all missing_timestamps SpeakerStream scenario_B_messages = Some scenario_B"
  by (simp add: scenario_B_messages_def transform_defs process_defs example_defs)

lemma transform_scenario_D:
  "transform missing_timestamps scenario_D scenario_D_message =
     Some (scenario_B, [Error no_timestamps_error, Data scenario_B_result])"
  by (simp add: scenario_D_def scenario_D_message_def scenario_B_result_def
    transform_defs process_defs example_defs)

lemma transform_scenario_C:
  "transform missing_timestamps scenario_C (label_update [example_label (1 / 2) 1 1 True]) =
     Some (scenario_C_later, [Error scenario_C_error])"
  by (simp add: scenario_C_later_def scenario_C_error_def
    transform_defs process_defs example_defs)

lemma transform_all_scenario_C:
  "transform_all missing_timestamps SpeakerStream scenario_C_messages = Some scenario_C"
  by (simp add: scenario_C_messages_def transform_defs process_defs example_defs)

subsection \<open>Sorting and merging labels\<close>

lemma sorter_total: "speakerLabelsSorter a b \<le> 0 \<or> speakerLabelsSorter b a \<le> 0"
  by (auto simp: speakerLabelsSorter_def)

lemma sorter_trans:
  "speakerLabelsSorter a b \<le> 0 \<Longrightarrow> speakerLabelsSorter b c \<le> 0 \<Longrightarrow>
     speakerLabelsSorter a c \<le> 0"
  by (auto simp: speakerLabelsSorter_def split: if_splits)

lemma sorter_refl: "speakerLabelsSorter a a = 0"
  by (simp add: speakerLabelsSorter_def)

lemma mset_array_sort_insert: "mset (array_sort_insert cmp x xs) = add_mset x (mset xs)"
  by (induction xs) auto

lemma mset_array_sort: "mset (array_sort cmp xs) = mset xs"
  by (induction xs) (auto simp: array_sort_def mset_array_sort_insert)

lemma set_array_sort_insert: "set (array_sort_insert cmp x xs) = insert x (set xs)"
  using mset_array_sort_insert [of cmp x xs, THEN arg_cong, of set_mset] by simp

lemma sorted_array_sort_insert:
  assumes "sorted_wrt (\<lambda>a b. speakerLabelsSorter a b \<le> 0) xs"
  shows "sorted_wrt (\<lambda>a b. speakerLabelsSorter a b \<le> 0)
           (array_sort_insert speakerLabelsSorter x xs)"
  using assms
proof (induction xs)
  case Nil
  show ?case by simp
next
  case (Cons y ys)
  show ?case
  proof (cases "speakerLabelsSorter x y \<le> 0")
    case True
    then have "\<forall>z \<in> set ys. speakerLabelsSorter x z \<le> 0"
      using Cons.prems sorter_trans by auto
    with True Cons.prems show ?thesis by simp
  next
    case False
    then have "speakerLabelsSorter y x \<le> 0"
      using sorter_total [of x y] by simp
    with False Cons show ?thesis
      by (auto simp: set_array_sort_insert)
  qed
qed

lemma sorted_array_sort:
  "sorted_wrt (\<lambda>a b. speakerLabelsSorter a b \<le> 0) (array_sort speakerLabelsSorter xs)"
proof (induction xs)
  case Nil
  show ?case by (simp add: array_sort_def)
next
  case (Cons x xs)
  then show ?case
    using sorted_array_sort_insert [of "array_sort speakerLabelsSorter xs" x]
    by (simp add: array_sort_def)
qed

lemma array_sort_sorted:
  "sorted_wrt (\<lambda>a b. cmp a b \<le> 0) xs \<Longrightarrow> array_sort cmp xs = xs"
proof (induction xs)
  case Nil
  show ?case by (simp add: array_sort_def)
next
  case (Cons x xs)
  then have "array_sort cmp xs = xs" by simp
  moreover have "array_sort_insert cmp x xs = x # xs"
    using Cons.prems by (cases xs) auto
  ultimately show ?case by (simp add: array_sort_def)
qed

lemma pullAllWith_filter:
  "pullAllWith xs vs c = filter (\<lambda>x. \<not> (\<exists>v \<in> set vs. c x v)) xs"
  unfolding pullAllWith_def
proof (induction vs arbitrary: xs)
  case Nil
  show ?case by simp
next
  case (Cons v vs)
  show ?case
    by (simp add: Cons.IH conj_commute)
qed

lemma labels_of_write_labels: "labels_of (write_labels s ls) = ls"
  by (simp add: labels_of_def write_labels_def)

lemma speaker_labels_write_labels: "speaker_labels (write_labels s ls) = speaker_labels s"
  by (simp add: write_labels_def)

lemma labels_of_handleSpeakerLabels:
  "labels_of (handleSpeakerLabels s d) =
     array_sort speakerLabelsSorter
       (filter (\<lambda>old. \<not> (\<exists>nw \<in> set (values_of (data_speaker_labels d)). same_span old nw))
          (labels_of s) @ values_of (data_speaker_labels d))"
  by (simp add: handleSpeakerLabels_def Let_def labels_of_write_labels pullAllWith_filter
    same_span_def)

lemma handleSpeakerLabels_frame:
  "timestamps (handleSpeakerLabels s d) = timestamps s"
  "speaker_labels (handleSpeakerLabels s d) = speaker_labels s"
  "ts_heap (handleSpeakerLabels s d) = ts_heap s"
  "ts_next (handleSpeakerLabels s d) = ts_next s"
  by (simp_all add: handleSpeakerLabels_def Let_def write_labels_def)

lemma filter_array_sort_single:
  assumes "filter P xs = [x]"
  shows "filter P (array_sort cmp xs) = [x]"
proof -
  have "mset (filter P (array_sort cmp xs)) = filter_mset P (mset (array_sort cmp xs))"
    by simp
  also have "\<dots> = mset (filter P xs)"
    by (simp add: mset_array_sort)
  also have "\<dots> = {#x#}"
    by (simp add: assms)
  finally have "mset (filter P (array_sort cmp xs)) = {#x#}" .
  then show ?thesis by (simp only: mset_single_iff)
qed

lemma labels_of_SpeakerStream: "labels_of SpeakerStream = []"
  by (simp add: labels_of_def SpeakerStream_def)

subsection \<open>What \_transform leaves alone\<close>

lemma concat_timestamps_frame:
  "speaker_labels (concat_timestamps s ws) = speaker_labels s"
  "sl_heap (concat_timestamps s ws) = sl_heap s"
  "ts_next (concat_timestamps s ws) = Suc (ts_next s)"
  "timestamps (concat_timestamps s ws) = ts_next s"
  "a < ts_next s \<Longrightarrow> ts_heap (concat_timestamps s ws) a = ts_heap s a"
  "timestamps_of (concat_timestamps s ws) = timestamps_of s @ ws"
  by (simp_all add: concat_timestamps_def Let_def timestamps_of_def)

lemma capture_timestamps_frame:
  assumes "capture_timestamps s rs = Some s'"
  shows "speaker_labels s' = speaker_labels s \<and> sl_heap s' = sl_heap s \<and>
         ts_next s \<le> ts_next s' \<and> (\<forall>a < ts_next s. ts_heap s' a = ts_heap s a) \<and>
         (allocated s \<longrightarrow> allocated s')"
  using assms
proof (induction rs arbitrary: s)
  case Nil
  then show ?case by simp
next
  case (Cons r rs)
  then obtain alt alts where alt: "res_alternatives r = alt # alts"
    by (cases "res_alternatives r") auto
  let ?s1 = "concat_timestamps s (alt_timestamps alt)"
  have "capture_timestamps ?s1 rs = Some s'"
    using Cons.prems alt by simp
  from Cons.IH [OF this]
  have ih: "speaker_labels s' = speaker_labels ?s1" "sl_heap s' = sl_heap ?s1"
    "ts_next ?s1 \<le> ts_next s'" "\<forall>a < ts_next ?s1. ts_heap s' a = ts_heap ?s1 a"
    "allocated ?s1 \<longrightarrow> allocated s'"
    by simp_all
  have a1: "allocated ?s1"
    by (simp add: allocated_def concat_timestamps_frame)
  have "\<forall>a < ts_next s. ts_heap s' a = ts_heap s a"
    using ih(4) by (simp add: concat_timestamps_frame)
  then show ?case
    using ih a1 by (simp add: concat_timestamps_frame)
qed

lemma handleResults_frame:
  assumes "handleResults nt s d = Some (s', evs)"
  shows "speaker_labels s' = speaker_labels s \<and> sl_heap s' = sl_heap s \<and>
         ts_next s \<le> ts_next s' \<and> (\<forall>a < ts_next s. ts_heap s' a = ts_heap s a) \<and>
         (allocated s \<longrightarrow> allocated s')"
proof (cases "nt d")
  case True
  with assms show ?thesis by (simp add: handleResults_def)
next
  case False
  with assms obtain rs where "capture_timestamps s (filter res_final rs) = Some s'"
    by (auto simp: handleResults_def split: option.splits)
  then show ?thesis by (rule capture_timestamps_frame)
qed

lemma handleSpeakerLabels_allocated:
  "allocated (handleSpeakerLabels s d) = allocated s"
  by (simp add: allocated_def handleSpeakerLabels_frame)

lemma process_same: "process s = Some (s', evs) \<Longrightarrow> s' = s"
  using process_returns [of s] by auto

lemma transform_frame:
  assumes t: "transform nt s d = Some (s', evs)"
  shows "speaker_labels s' = speaker_labels s \<and>
         ts_next s \<le> ts_next s' \<and> (\<forall>a < ts_next s. ts_heap s' a = ts_heap s a) \<and>
         (allocated s \<longrightarrow> allocated s') \<and> (labels_sorted s \<longrightarrow> labels_sorted s')"
proof -
  obtain s1 ev1 where hr:
    "(if data_results d \<noteq> None then handleResults nt s d else Some (s, [])) = Some (s1, ev1)"
    using t by (auto simp: transform_def split: option.splits)
  define s2 where "s2 = (if data_speaker_labels d \<noteq> None then handleSpeakerLabels s1 d else s1)"
  obtain ev3 where "process s2 = Some (s', ev3)"
    using t hr by (auto simp: transform_def s2_def Let_def split: option.splits)
  then have s': "s' = s2" by (rule process_same)
  have f1: "speaker_labels s1 = speaker_labels s \<and> sl_heap s1 = sl_heap s \<and>
         ts_next s \<le> ts_next s1 \<and> (\<forall>a < ts_next s. ts_heap s1 a = ts_heap s a) \<and>
         (allocated s \<longrightarrow> allocated s1)"
  proof (cases "data_results d \<noteq> None")
    case True
    with hr have "handleResults nt s d = Some (s1, ev1)" by simp
    then show ?thesis by (rule handleResults_frame)
  next
    case False
    with hr show ?thesis by simp
  qed
  then have l1: "labels_of s1 = labels_of s"
    by (simp add: labels_of_def)
  have f2: "speaker_labels s2 = speaker_labels s1 \<and> ts_next s2 = ts_next s1 \<and>
      ts_heap s2 = ts_heap s1 \<and> allocated s2 = allocated s1"
    by (simp add: s2_def handleSpeakerLabels_frame handleSpeakerLabels_allocated)
  have "labels_sorted s \<longrightarrow> labels_sorted s2"
    using l1 by (simp add: s2_def labels_sorted_def labels_of_handleSpeakerLabels
      sorted_array_sort)
  with f1 f2 show ?thesis by (simp add: s')
qed

lemma transform_all_frame:
  assumes "transform_all nt s ds = Some s'"
  shows "speaker_labels s' = speaker_labels s \<and>
         ts_next s \<le> ts_next s' \<and> (\<forall>a < ts_next s. ts_heap s' a = ts_heap s a) \<and>
         (allocated s \<longrightarrow> allocated s') \<and> (labels_sorted s \<longrightarrow> labels_sorted s')"
  using assms
proof (induction ds arbitrary: s)
  case Nil
  then show ?case by simp
next
  case (Cons d ds)
  then obtain s1 evs where t: "transform nt s d = Some (s1, evs)"
    and rest: "transform_all nt s1 ds = Some s'"
    by (auto split: option.splits)
  from transform_frame [OF t] Cons.IH [OF rest] show ?case
    by (auto simp: le_trans)
qed

lemma SpeakerStream_invariants: "allocated SpeakerStream" "labels_sorted SpeakerStream"
  by (simp_all add: allocated_def labels_sorted_def SpeakerStream_def labels_of_def)

lemma sorted_wrt_last:
  assumes "sorted_wrt R xs" and "\<And>x. R x x" and "x \<in> set xs"
  shows "R x (last xs)"
  using assms
proof (induction xs)
  case Nil
  then show ?case by simp
next
  case (Cons y ys)
  then show ?case by (cases "ys = []") auto
qed

lemma isFinal_true_iff:
  "isFinal s = JSBoolean True \<longleftrightarrow> labels_of s \<noteq> [] \<and> final (last (labels_of s))"
  by (simp add: isFinal_def)

subsection \<open>The errors that are raised\<close>

lemma process_error:
  assumes "process s = Some (s1, evs)" and "Error e \<in> set evs"
  shows "\<exists>l t. e = mismatch_error s l t"
proof (cases "\<exists>i. misaligned s i")
  case True
  then obtain k where "misaligned s k" and "\<forall>j < k. \<not> misaligned s j"
    using exists_least_iff [of "misaligned s"] by blast
  then have "process s =
     Some (s, [Error (mismatch_error s (labels_of s ! k) (at_index (timestamps_of s) k))])"
    by (rule process_first_misaligned)
  with assms(1) have "evs =
      [Error (mismatch_error s (labels_of s ! k) (at_index (timestamps_of s) k))]"
    by auto
  with assms(2) have "e = mismatch_error s (labels_of s ! k) (at_index (timestamps_of s) k)"
    by simp
  then show ?thesis by blast
next
  case False
  then obtain segs where "process s =
      Some (s, if segs = [] then [] else [Data \<lparr>results = segs, result_index = 0\<rparr>])"
    using process_aligned [of s] by blast
  with assms(1) have "evs = (if segs = [] then [] else [Data \<lparr>results = segs, result_index = 0\<rparr>])"
    by auto
  with assms(2) have False
    by (cases "segs = []") simp_all
  then show ?thesis ..
qed

lemma flush_error_cases:
  assumes "flush s = (s1, evs)" and "Error e \<in> set evs"
  shows "s1 = s \<and> (\<exists>msg. e = flush_error s msg)"
proof (cases "length (timestamps_of s) \<noteq> length (labels_of s)")
  case True
  define msg where "msg =
      (if length (timestamps_of s) \<noteq> 0 \<and> \<not> length (labels_of s) \<noteq> 0 then
         ''No speaker_labels found. SpeakerStream requires speaker_labels to be enabled.''
       else
         ''Mismatch between number of word timestamps ('' @
           number_to_string (length (timestamps_of s)) @
           '') and number of speaker_labels ('' @
           number_to_string (length (labels_of s)) @
           '') - some data may be lost.'')"
  from True have "flush s = (s, [Error (flush_error s msg)])"
    unfolding flush_def msg_def Let_def by (simp only: if_True simp_thms)
  with assms(1) have "s1 = s" and "evs = [Error (flush_error s msg)]"
    by auto
  with assms(2) show ?thesis by auto
next
  case False
  then have "flush s = (s, [])"
    by (simp add: flush_def)
  with assms show ?thesis by simp
qed

lemma reachable_invariants:
  assumes "transform_all nt SpeakerStream ds = Some s"
  shows "allocated s" and "labels_sorted s"
  using transform_all_frame [OF assms] SpeakerStream_invariants by simp_all

subsection \<open>Claims about process\<close>

text \<open>
  C1. In a round (one call of \<^verbatim>\<open>process\<close>), if at some index \<open>i\<close> of the label
  array the timestamp is absent or its from or to differs from the label's, then the round
  sends out exactly one thing: one error named \<open>MISMATCH\<close>, raised at the first such
  index \<open>k\<close>, carrying the label at \<open>k\<close> and the timestamp at \<open>k\<close> (absent when there is
  none). Later mismatches add nothing, and no message is pushed.
\<close>

theorem process_mismatch:
  assumes "misaligned s i"
  shows "\<exists>k \<le> i. misaligned s k \<and> (\<forall>j < k. \<not> misaligned s j) \<and>
           process s =
             Some (s, [Error
               \<lparr>err_message = ''Mismatch between speaker_label and word timestamp'',
                err_name = ERROR_MISMATCH,
                err_speaker_label = Some (labels_of s ! k),
                err_timestamp = at_index (timestamps_of s) k,
                err_speaker_labels = Some (speaker_labels s),
                err_timestamps = Some (timestamps s)\<rparr>])"
proof -
  define k where "k = (LEAST j. misaligned s j)"
  have mk: "misaligned s k"
    unfolding k_def using assms by (rule LeastI)
  have le: "k \<le> i"
    unfolding k_def using assms by (rule Least_le)
  have before: "\<forall>j < k. \<not> misaligned s j"
    unfolding k_def using not_less_Least by blast
  have "process s =
     Some (s, [Error (mismatch_error s (labels_of s ! k) (at_index (timestamps_of s) k))])"
    using mk before by (rule process_first_misaligned)
  then show ?thesis using mk le before
    unfolding mismatch_error_def by blast
qed

theorem process_mismatch_witness:
  "misaligned scenario_C 1 \<and>
   process scenario_C =
     Some (scenario_C,
       [Error \<lparr>err_message = ''Mismatch between speaker_label and word timestamp'',
               err_name = ERROR_MISMATCH,
               err_speaker_label = Some (example_label (1 / 2) (3 / 4) 1 False),
               err_timestamp = Some (''there'', 1 / 2, 1),
               err_speaker_labels = Some 0,
               err_timestamps = Some 1\<rparr>])"
proof -
  have m1: "misaligned scenario_C 1"
    by (simp add: misaligned_def example_defs labels_of_def timestamps_of_def FROM_def TO_def)
  have m0: "\<not> misaligned scenario_C 0"
    by (simp add: misaligned_def example_defs labels_of_def timestamps_of_def FROM_def TO_def)
  from process_mismatch [OF m1] obtain k where k: "k \<le> 1" "misaligned scenario_C k"
    and p: "process scenario_C =
      Some (scenario_C, [Error
               \<lparr>err_message = ''Mismatch between speaker_label and word timestamp'',
                err_name = ERROR_MISMATCH,
                err_speaker_label = Some (labels_of scenario_C ! k),
                err_timestamp = at_index (timestamps_of scenario_C) k,
                err_speaker_labels = Some (speaker_labels scenario_C),
                err_timestamps = Some (timestamps scenario_C)\<rparr>])"
    by blast
  have "k = 1"
  proof (rule ccontr)
    assume "k \<noteq> 1"
    with k(1) have "k = 0" by simp
    with k(2) m0 show False by simp
  qed
  with p m1 show ?thesis
    by (simp add: example_defs labels_of_def timestamps_of_def at_index_def)
qed

text \<open>
  C2. In a round that raises no \<open>MISMATCH\<close>, the results that are pushed start exactly
  at the indices where the speaker changes: index \<open>0\<close> and every index whose label has
  another speaker than the one before. Each result has the speaker of the label
  it starts at; the results' timestamp lists, one after the other, are the timestamps
  paired with the labels, in their order; and each result has one alternative, whose
  transcript is each of its words followed by one space.
\<close>

theorem segments_at_speaker_changes:
  assumes "process s = Some (s', evs)"
    and "\<forall>e. Error e \<in> set evs \<longrightarrow> err_name e \<noteq> ERROR_MISMATCH"
  shows "starts 0 (concat (map results (pushed evs))) = boundaries (labels_of s) \<and>
         map seg_speaker (concat (map results (pushed evs))) =
           map (\<lambda>i. speaker (labels_of s ! i)) (boundaries (labels_of s)) \<and>
         concat (map segment_timestamps (concat (map results (pushed evs)))) =
           take (length (labels_of s)) (timestamps_of s) \<and>
         (\<forall>seg \<in> set (concat (map results (pushed evs))).
            \<exists>alt. seg_alternatives seg = [alt] \<and> alt_timestamps alt \<noteq> [] \<and>
                  transcript alt = concat (map (\<lambda>t. WORD t @ '' '') (alt_timestamps alt)))"
proof -
  let ?segs = "concat (map results (pushed evs))"
  from process_no_mismatch [OF assms]
  have al: "\<forall>i. \<not> misaligned s i"
    and g: "grouped (isFinal s) (zip (timestamps_of s) (labels_of s)) ?segs"
    by simp_all
  note z = zip_aligned [OF al]
  have "starts 0 ?segs = boundaries (labels_of s)"
    using g unfolding grouped_def z by blast
  moreover have "map seg_speaker ?segs =
           map (\<lambda>i. speaker (labels_of s ! i)) (boundaries (labels_of s))"
    using g unfolding grouped_def z by blast
  moreover have "concat (map segment_timestamps ?segs) =
           take (length (labels_of s)) (timestamps_of s)"
    using g unfolding grouped_def z by blast
  moreover have "\<forall>seg \<in> set ?segs.
            \<exists>alt. seg_alternatives seg = [alt] \<and> alt_timestamps alt \<noteq> [] \<and>
                  transcript alt = concat (map (\<lambda>t. WORD t @ '' '') (alt_timestamps alt))"
    using g unfolding grouped_def spoken_def by blast
  ultimately show ?thesis by blast
qed

theorem segments_at_speaker_changes_witness:
  "process scenario_B = Some (scenario_B, [Data scenario_B_result]) \<and>
   boundaries (labels_of scenario_B) = [0, 2] \<and>
   starts 0 (results scenario_B_result) = [0, 2] \<and>
   map seg_speaker (results scenario_B_result) = [1, 2] \<and>
   concat (map segment_timestamps (results scenario_B_result)) = three_words"
proof -
  have b: "boundaries (labels_of scenario_B) = [0, 2]"
    by (simp add: boundaries_def example_defs labels_of_def)
  have sp: "map (\<lambda>i. speaker (labels_of scenario_B ! i)) [0, 2] = [1, 2]"
    by (simp add: example_defs labels_of_def)
  have tw: "take (length (labels_of scenario_B)) (timestamps_of scenario_B) = three_words"
    by (simp add: example_defs labels_of_def timestamps_of_def)
  have pu: "concat (map results (pushed [Data scenario_B_result])) = results scenario_B_result"
    by simp
  have "\<forall>e. Error e \<in> set [Data scenario_B_result] \<longrightarrow> err_name e \<noteq> ERROR_MISMATCH"
    by simp
  from segments_at_speaker_changes [OF process_scenario_B this]
  show ?thesis
    unfolding b sp tw pu using process_scenario_B by blast
qed

text \<open>
  C3. In a round that raises no \<open>MISMATCH\<close>, every label has a timestamp at its index
  with the same from and to, and the timestamp lists of the results pushed in the round,
  one after the other, are the first timestamps, as many as there are labels: their number
  is the label count, and no timestamp at or beyond the label count is in a result.
\<close>

theorem aligned_round:
  assumes "process s = Some (s', evs)"
    and "\<forall>e. Error e \<in> set evs \<longrightarrow> err_name e \<noteq> ERROR_MISMATCH"
  shows "(\<forall>i < length (labels_of s).
            i < length (timestamps_of s) \<and>
            FROM (timestamps_of s ! i) = label_from (labels_of s ! i) \<and>
            TO (timestamps_of s ! i) = label_to (labels_of s ! i)) \<and>
         concat (map segment_timestamps (concat (map results (pushed evs)))) =
           take (length (labels_of s)) (timestamps_of s) \<and>
         length (concat (map segment_timestamps (concat (map results (pushed evs))))) =
           length (labels_of s)"
proof -
  let ?segs = "concat (map results (pushed evs))"
  from process_no_mismatch [OF assms]
  have al: "\<forall>i. \<not> misaligned s i"
    and g: "grouped (isFinal s) (zip (timestamps_of s) (labels_of s)) ?segs"
    by simp_all
  have ct: "concat (map segment_timestamps ?segs) =
      take (length (labels_of s)) (timestamps_of s)"
    using g unfolding grouped_def zip_aligned [OF al] by blast
  have le: "length (labels_of s) \<le> length (timestamps_of s)"
    using al by (rule aligned_length)
  have "\<forall>i < length (labels_of s).
            i < length (timestamps_of s) \<and>
            FROM (timestamps_of s ! i) = label_from (labels_of s ! i) \<and>
            TO (timestamps_of s ! i) = label_to (labels_of s ! i)"
    using al unfolding misaligned_def by blast
  then show ?thesis
    using ct le by simp
qed

theorem aligned_round_witness:
  "process scenario_E = Some (scenario_E, [Data scenario_E_result]) \<and>
   length (timestamps_of scenario_E) = 5 \<and>
   length (labels_of scenario_E) = 3 \<and>
   concat (map segment_timestamps (results scenario_E_result)) = three_words"
proof -
  have "\<forall>e. Error e \<in> set [Data scenario_E_result] \<longrightarrow> err_name e \<noteq> ERROR_MISMATCH"
    by simp
  from aligned_round [OF process_scenario_E this]
  have "concat (map segment_timestamps (concat (map results (pushed [Data scenario_E_result])))) =
      take (length (labels_of scenario_E)) (timestamps_of scenario_E)"
    by blast
  moreover have "take (length (labels_of scenario_E)) (timestamps_of scenario_E) = three_words"
    by (simp add: example_defs labels_of_def timestamps_of_def)
  moreover have "length (labels_of scenario_E) = 3" and "length (timestamps_of scenario_E) = 5"
    by (simp_all add: example_defs labels_of_def timestamps_of_def)
  ultimately show ?thesis
    using process_scenario_E by simp
qed

text \<open>
  C10. \<^verbatim>\<open>process\<close> returns, and the stream after it is the stream before it: both
  arrays and both references are as they were, also when a \<open>MISMATCH\<close> is raised. The
  messages it pushes depend on the contents of the two arrays only: two streams with the
  same timestamps and the same labels push the same messages.
\<close>

theorem process_frame:
  "(\<exists>evs. process s = Some (s, evs)) \<and>
   (timestamps_of s = timestamps_of t \<and> labels_of s = labels_of t \<longrightarrow>
      map_option (\<lambda>r. pushed (snd r)) (process s) =
      map_option (\<lambda>r. pushed (snd r)) (process t))"
  using process_returns [of s] process_pushed_cong [of s t] by blast

theorem process_frame_witness:
  "process scenario_B = Some (scenario_B, [Data scenario_B_result]) \<and>
   timestamps scenario_B_moved \<noteq> timestamps scenario_B \<and>
   map_option (\<lambda>r. pushed (snd r)) (process scenario_B_moved) = Some [scenario_B_result]"
proof -
  have "timestamps_of scenario_B = timestamps_of scenario_B_moved"
    and "labels_of scenario_B = labels_of scenario_B_moved"
    by (simp_all add: example_defs scenario_B_moved_def timestamps_of_def labels_of_def)
  with process_frame [of scenario_B scenario_B_moved]
  have "map_option (\<lambda>r. pushed (snd r)) (process scenario_B) =
      map_option (\<lambda>r. pushed (snd r)) (process scenario_B_moved)"
    by blast
  moreover have "timestamps scenario_B_moved \<noteq> timestamps scenario_B"
    by (simp add: example_defs scenario_B_moved_def)
  ultimately show ?thesis
    by (simp add: process_scenario_B)
qed

text \<open>
  C5. \<^verbatim>\<open>isFinal()\<close> is \<^verbatim>\<open>true\<close> exactly when there is a label and the last label of
  the array has \<^verbatim>\<open>final\<close> set. In every stream a session reaches, the last label of the
  array is the chronologically last one: no label comes after it in the order of the
  comparator. And every result of a message pushed in a round has that round's
  \<^verbatim>\<open>isFinal()\<close> value as its \<^verbatim>\<open>final\<close>.
\<close>

theorem final_flag:
  "(isFinal s = JSBoolean True \<longleftrightarrow> labels_of s \<noteq> [] \<and> final (last (labels_of s))) \<and>
   (transform_all noTimestamps SpeakerStream ds = Some s \<longrightarrow>
      (\<forall>l \<in> set (labels_of s). speakerLabelsSorter l (last (labels_of s)) \<le> 0)) \<and>
   (process s = Some (s', evs) \<and> Data r \<in> set evs \<longrightarrow>
      (\<forall>seg \<in> set (results r). seg_final seg = isFinal s))"
proof (intro conjI impI)
  show "isFinal s = JSBoolean True \<longleftrightarrow> labels_of s \<noteq> [] \<and> final (last (labels_of s))"
    by (rule isFinal_true_iff)
next
  assume "transform_all noTimestamps SpeakerStream ds = Some s"
  from transform_all_frame [OF this] have "labels_sorted s"
    using SpeakerStream_invariants by simp
  then show "\<forall>l \<in> set (labels_of s). speakerLabelsSorter l (last (labels_of s)) \<le> 0"
    unfolding labels_sorted_def
    by (auto intro: sorted_wrt_last [where R = "\<lambda>a b. speakerLabelsSorter a b \<le> 0"]
      simp: sorter_refl)
next
  assume "process s = Some (s', evs) \<and> Data r \<in> set evs"
  then have "grouped (isFinal s) (zip (timestamps_of s) (labels_of s)) (results r)"
    using process_pushed by blast
  then show "\<forall>seg \<in> set (results r). seg_final seg = isFinal s"
    unfolding grouped_def by blast
qed

theorem final_flag_witness:
  "isFinal scenario_B = JSBoolean True \<and>
   map (\<lambda>l. speakerLabelsSorter l (last (labels_of scenario_B))) (labels_of scenario_B) =
     [- 1, - 1, 0] \<and>
   map seg_final (results scenario_B_result) = [JSBoolean True, JSBoolean True]"
proof -
  have f: "isFinal scenario_B = JSBoolean True"
    by (simp add: isFinal_def example_defs labels_of_def)
  have "process scenario_B = Some (scenario_B, [Data scenario_B_result]) \<and>
      Data scenario_B_result \<in> set [Data scenario_B_result]"
    by (simp add: process_scenario_B)
  with final_flag [of scenario_B missing_timestamps scenario_B_messages scenario_B
      "[Data scenario_B_result]" scenario_B_result]
    transform_all_scenario_B f
  have "\<forall>seg \<in> set (results scenario_B_result). seg_final seg = JSBoolean True"
    by simp
  then have "map seg_final (results scenario_B_result) = [JSBoolean True, JSBoolean True]"
    by (simp add: scenario_B_result_def)
  moreover have "map (\<lambda>l. speakerLabelsSorter l (last (labels_of scenario_B)))
      (labels_of scenario_B) = [- 1, - 1, 0]"
    by (simp add: example_defs labels_of_def speakerLabelsSorter_def)
  ultimately show ?thesis using f by simp
qed

subsection \<open>Claims about handleSpeakerLabels\<close>

text \<open>
  C6. Merging new labels removes every label already there whose span (from and to, both
  equal) is the span of some new label, appends all the new labels, and sorts: the labels
  after the merge are the sorted list of the kept ones followed by the new ones, so they
  hold each kept label and each new label as often as it occurred. In particular, after
  merging \<open>[l1]\<close> and then \<open>[l2]\<close>, where \<open>l1\<close> and \<open>l2\<close> have the same span and different
  speakers, the only label with that span is \<open>l2\<close>.
\<close>

theorem merge_labels:
  "labels_of (handleSpeakerLabels s d) =
     array_sort speakerLabelsSorter
       (filter (\<lambda>old. \<not> (\<exists>nw \<in> set (values_of (data_speaker_labels d)).
                   label_from old = label_from nw \<and> label_to old = label_to nw))
          (labels_of s) @ values_of (data_speaker_labels d)) \<and>
   mset (labels_of (handleSpeakerLabels s d)) =
     mset (filter (\<lambda>old. \<not> (\<exists>nw \<in> set (values_of (data_speaker_labels d)).
                   label_from old = label_from nw \<and> label_to old = label_to nw))
          (labels_of s)) + mset (values_of (data_speaker_labels d)) \<and>
   (label_from l1 = label_from l2 \<and> label_to l1 = label_to l2 \<and> speaker l1 \<noteq> speaker l2 \<longrightarrow>
      filter (\<lambda>l. label_from l = label_from l2 \<and> label_to l = label_to l2)
        (labels_of (handleSpeakerLabels (handleSpeakerLabels s (label_update [l1]))
           (label_update [l2]))) = [l2])"
proof (intro conjI impI)
  show eq: "labels_of (handleSpeakerLabels s d) =
     array_sort speakerLabelsSorter
       (filter (\<lambda>old. \<not> (\<exists>nw \<in> set (values_of (data_speaker_labels d)).
                   label_from old = label_from nw \<and> label_to old = label_to nw))
          (labels_of s) @ values_of (data_speaker_labels d))"
    by (simp add: labels_of_handleSpeakerLabels same_span_def)
  show "mset (labels_of (handleSpeakerLabels s d)) =
     mset (filter (\<lambda>old. \<not> (\<exists>nw \<in> set (values_of (data_speaker_labels d)).
                   label_from old = label_from nw \<and> label_to old = label_to nw))
          (labels_of s)) + mset (values_of (data_speaker_labels d))"
    unfolding eq mset_array_sort by simp
next
  let ?s1 = "handleSpeakerLabels s (label_update [l1])"
  have "filter (\<lambda>l. label_from l = label_from l2 \<and> label_to l = label_to l2)
      (filter (\<lambda>old. \<not> (\<exists>nw \<in> set [l2]. same_span old nw)) (labels_of ?s1) @ [l2]) = [l2]"
    by (simp add: same_span_def)
  then have "filter (\<lambda>l. label_from l = label_from l2 \<and> label_to l = label_to l2)
      (array_sort speakerLabelsSorter
        (filter (\<lambda>old. \<not> (\<exists>nw \<in> set [l2]. same_span old nw)) (labels_of ?s1) @ [l2])) = [l2]"
    by (rule filter_array_sort_single)
  then show "filter (\<lambda>l. label_from l = label_from l2 \<and> label_to l = label_to l2)
        (labels_of (handleSpeakerLabels ?s1 (label_update [l2]))) = [l2]"
    by (simp add: labels_of_handleSpeakerLabels label_update_def values_of_def)
qed

theorem merge_labels_witness:
  "speaker (example_label 0 (1 / 2) 1 False) \<noteq> speaker (example_label 0 (1 / 2) 2 False) \<and>
   filter (\<lambda>l. label_from l = label_from (example_label 0 (1 / 2) 2 False) \<and>
               label_to l = label_to (example_label 0 (1 / 2) 2 False))
     (labels_of (handleSpeakerLabels
        (handleSpeakerLabels SpeakerStream (label_update [example_label 0 (1 / 2) 1 False]))
        (label_update [example_label 0 (1 / 2) 2 False]))) =
   [example_label 0 (1 / 2) 2 False]"
proof -
  let ?l1 = "example_label 0 (1 / 2) 1 False" and ?l2 = "example_label 0 (1 / 2) 2 False"
  have h: "label_from ?l1 = label_from ?l2 \<and> label_to ?l1 = label_to ?l2 \<and>
      speaker ?l1 \<noteq> speaker ?l2"
    by (simp add: example_label_def)
  show ?thesis
    using merge_labels [of SpeakerStream "label_update []" ?l1 ?l2] h by blast
qed

text \<open>
  C9. A label array reached by any sequence of merges on a new stream is left as it is,
  contents and order, by the merge of an empty label update.
\<close>

theorem empty_merge_unchanged:
  "labels_of (handleSpeakerLabels (foldl handleSpeakerLabels SpeakerStream ds)
      \<lparr>data_results = r, data_speaker_labels = Some []\<rparr>) =
   labels_of (foldl handleSpeakerLabels SpeakerStream ds)"
proof -
  have sorted: "sorted_wrt (\<lambda>a b. speakerLabelsSorter a b \<le> 0)
      (labels_of (foldl handleSpeakerLabels SpeakerStream ds))"
  proof (induction ds rule: rev_induct)
    case Nil
    show ?case by (simp add: labels_of_SpeakerStream)
  next
    case (snoc d ds)
    show ?case by (simp add: labels_of_handleSpeakerLabels sorted_array_sort)
  qed
  show ?thesis
    by (simp add: labels_of_handleSpeakerLabels values_of_def array_sort_sorted [OF sorted])
qed

subsection \<open>Claims about \_flush\<close>

text \<open>
  C7. At the close of the stream exactly one of three things happens. With as many
  timestamps as labels, nothing is sent out. With no label and some timestamp, one
  \<open>MISMATCH\<close> error says that no speaker labels were found. With any other two counts,
  one \<open>MISMATCH\<close> error gives both counts in its message.
\<close>

theorem flush_outcomes:
  "(length (timestamps_of s) = length (labels_of s) \<longrightarrow> flush s = (s, [])) \<and>
   (length (timestamps_of s) \<noteq> length (labels_of s) \<and>
    labels_of s = [] \<and> timestamps_of s \<noteq> [] \<longrightarrow>
      flush s = (s, [Error
        \<lparr>err_message =
           ''No speaker_labels found. SpeakerStream requires speaker_labels to be enabled.'',
         err_name = ERROR_MISMATCH,
         err_speaker_label = None,
         err_timestamp = None,
         err_speaker_labels = Some (speaker_labels s),
         err_timestamps = Some (timestamps s)\<rparr>])) \<and>
   (length (timestamps_of s) \<noteq> length (labels_of s) \<and>
    \<not> (labels_of s = [] \<and> timestamps_of s \<noteq> []) \<longrightarrow>
      flush s = (s, [Error
        \<lparr>err_message =
           ''Mismatch between number of word timestamps ('' @
             number_to_string (length (timestamps_of s)) @
             '') and number of speaker_labels ('' @
             number_to_string (length (labels_of s)) @
             '') - some data may be lost.'',
         err_name = ERROR_MISMATCH,
         err_speaker_label = None,
         err_timestamp = None,
         err_speaker_labels = Some (speaker_labels s),
         err_timestamps = Some (timestamps s)\<rparr>]))"
  by (simp add: flush_def flush_error_def Let_def)

theorem flush_outcomes_witness:
  "flush scenario_B = (scenario_B, []) \<and>
   flush (stream_with three_words []) =
     (stream_with three_words [], [Error
        \<lparr>err_message =
           ''No speaker_labels found. SpeakerStream requires speaker_labels to be enabled.'',
         err_name = ERROR_MISMATCH,
         err_speaker_label = None,
         err_timestamp = None,
         err_speaker_labels = Some 0,
         err_timestamps = Some 1\<rparr>]) \<and>
   flush scenario_E =
     (scenario_E, [Error
        \<lparr>err_message =
           ''Mismatch between number of word timestamps (5) and number of speaker_labels (3) - some data may be lost.'',
         err_name = ERROR_MISMATCH,
         err_speaker_label = None,
         err_timestamp = None,
         err_speaker_labels = Some 0,
         err_timestamps = Some 1\<rparr>])"
proof -
  have "length (timestamps_of scenario_B) = length (labels_of scenario_B)"
    by (simp add: example_defs timestamps_of_def labels_of_def)
  with flush_outcomes [of scenario_B] have b: "flush scenario_B = (scenario_B, [])"
    by blast
  have "length (timestamps_of (stream_with three_words [])) \<noteq>
        length (labels_of (stream_with three_words [])) \<and>
      labels_of (stream_with three_words []) = [] \<and>
      timestamps_of (stream_with three_words []) \<noteq> []"
    by (simp add: example_defs timestamps_of_def labels_of_def)
  with flush_outcomes [of "stream_with three_words []"]
  have n: "flush (stream_with three_words []) =
     (stream_with three_words [], [Error
        \<lparr>err_message =
           ''No speaker_labels found. SpeakerStream requires speaker_labels to be enabled.'',
         err_name = ERROR_MISMATCH,
         err_speaker_label = None,
         err_timestamp = None,
         err_speaker_labels = Some (speaker_labels (stream_with three_words [])),
         err_timestamps = Some (timestamps (stream_with three_words []))\<rparr>])"
    by blast
  have "length (timestamps_of scenario_E) \<noteq> length (labels_of scenario_E) \<and>
      \<not> (labels_of scenario_E = [] \<and> timestamps_of scenario_E \<noteq> [])"
    by (simp add: example_defs timestamps_of_def labels_of_def)
  with flush_outcomes [of scenario_E]
  have e: "flush scenario_E = (scenario_E, [Error
        \<lparr>err_message =
           ''Mismatch between number of word timestamps ('' @
             number_to_string (length (timestamps_of scenario_E)) @
             '') and number of speaker_labels ('' @
             number_to_string (length (labels_of scenario_E)) @
             '') - some data may be lost.'',
         err_name = ERROR_MISMATCH,
         err_speaker_label = None,
         err_timestamp = None,
         err_speaker_labels = Some (speaker_labels scenario_E),
         err_timestamps = Some (timestamps scenario_E)\<rparr>])"
    by blast
  have l: "length (timestamps_of scenario_E) = 5" "length (labels_of scenario_E) = 3"
    "speaker_labels scenario_E = 0" "timestamps scenario_E = 1"
    "speaker_labels (stream_with three_words []) = 0"
    "timestamps (stream_with three_words []) = 1"
    by (simp_all add: example_defs timestamps_of_def labels_of_def)
  show ?thesis
    using b n e unfolding l by simp
qed

subsection \<open>Claims about handleResults and \_transform\<close>

text \<open>
  C4, as it is written: when a message has a results array and the checker reports the
  capability missing, a configuration error is raised, processing of the message stops and
  none of its timestamps is accumulated. Processing does not stop. In scenario D the
  message has a result without word timestamps and one more label; after the error the
  label is merged, \<^verbatim>\<open>process\<close> runs, and a message with all three words is pushed.
\<close>

theorem missing_capability_counterexample:
  "data_results scenario_D_message \<noteq> None \<and>
   missing_timestamps scenario_D_message \<and>
   transform missing_timestamps scenario_D scenario_D_message =
     Some (scenario_B, [Error no_timestamps_error, Data scenario_B_result]) \<and>
   labels_of scenario_D \<noteq> labels_of scenario_B"
  by (simp add: transform_scenario_D)
     (simp add: scenario_D_message_def missing_timestamps_def scenario_D_def example_defs
        labels_of_def)

text \<open>
  C4, amended. When a message has a results array and the checker reports the capability
  missing, \<^verbatim>\<open>handleResults\<close> raises the configuration error and returns at once, with
  the stream as it was; the timestamp array and the reference to it are unchanged by the
  whole message. \<^verbatim>\<open>_transform\<close> goes on: the speaker labels of the message, when it has
  any, are merged, and \<^verbatim>\<open>process\<close> runs on the outcome, so what is sent out is the
  configuration error followed by what that round sends out.
\<close>

theorem missing_capability:
  assumes "data_results d \<noteq> None" and "noTimestamps d"
  shows "handleResults noTimestamps s d =
           Some (s, [Error
             \<lparr>err_message =
                ''SpeakerStream requires that timestamps and speaker_labels be enabled'',
              err_name = ERROR_NO_TIMESTAMPS,
              err_speaker_label = None,
              err_timestamp = None,
              err_speaker_labels = None,
              err_timestamps = None\<rparr>]) \<and>
         (\<exists>s' evs.
            transform noTimestamps s d = Some (s', Error no_timestamps_error # evs) \<and>
            s' = (if data_speaker_labels d \<noteq> None then handleSpeakerLabels s d else s) \<and>
            process s' = Some (s', evs) \<and>
            timestamps s' = timestamps s \<and> ts_heap s' = ts_heap s \<and>
            timestamps_of s' = timestamps_of s)"
proof -
  let ?s2 = "if data_speaker_labels d \<noteq> None then handleSpeakerLabels s d else s"
  have hr: "handleResults noTimestamps s d = Some (s, [Error no_timestamps_error])"
    using assms(2) by (simp add: handleResults_def)
  obtain evs where p: "process ?s2 = Some (?s2, evs)"
    using process_returns [of ?s2] by blast
  have t: "transform noTimestamps s d = Some (?s2, Error no_timestamps_error # evs)"
    using assms(1) hr p by (simp add: transform_def Let_def)
  have fr: "timestamps ?s2 = timestamps s \<and> ts_heap ?s2 = ts_heap s"
    by (simp add: handleSpeakerLabels_frame)
  then have "timestamps_of ?s2 = timestamps_of s"
    by (simp add: timestamps_of_def)
  with t p fr have "\<exists>s' evs.
            transform noTimestamps s d = Some (s', Error no_timestamps_error # evs) \<and>
            s' = ?s2 \<and> process s' = Some (s', evs) \<and>
            timestamps s' = timestamps s \<and> ts_heap s' = ts_heap s \<and>
            timestamps_of s' = timestamps_of s"
    by blast
  with hr show ?thesis
    by (simp add: no_timestamps_error_def)
qed

theorem missing_capability_witness:
  "handleResults missing_timestamps scenario_D scenario_D_message =
     Some (scenario_D, [Error no_timestamps_error]) \<and>
   transform missing_timestamps scenario_D scenario_D_message =
     Some (scenario_B, [Error no_timestamps_error, Data scenario_B_result]) \<and>
   timestamps_of scenario_B = timestamps_of scenario_D"
proof -
  have h: "data_results scenario_D_message \<noteq> None" "missing_timestamps scenario_D_message"
    by (simp_all add: scenario_D_message_def missing_timestamps_def)
  from missing_capability [of scenario_D_message missing_timestamps scenario_D, OF h]
  have "handleResults missing_timestamps scenario_D scenario_D_message =
     Some (scenario_D, [Error no_timestamps_error])"
    by (simp add: no_timestamps_error_def)
  moreover have "timestamps_of scenario_B = timestamps_of scenario_D"
    by (simp add: scenario_D_def example_defs timestamps_of_def)
  ultimately show ?thesis
    by (simp add: transform_scenario_D)
qed

subsection \<open>Claims about the collections an error carries\<close>

text \<open>
  C8, as it is written: a \<open>MISMATCH\<close> error carries copies of the two arrays, which no
  later update changes. The label array it carries is not a copy. In scenario C the error
  is given the reference \<^verbatim>\<open>this.speaker_labels\<close>, whose array holds two labels when the
  error is raised; after the next message, with one more label, the same array holds
  three.
\<close>

theorem error_snapshot_counterexample:
  "process scenario_C = Some (scenario_C, [Error scenario_C_error]) \<and>
   err_name scenario_C_error = ERROR_MISMATCH \<and>
   err_speaker_labels scenario_C_error = Some 0 \<and>
   sl_heap scenario_C 0 =
     [example_label 0 (1 / 2) 1 False, example_label (1 / 2) (3 / 4) 1 False] \<and>
   transform missing_timestamps scenario_C (label_update [example_label (1 / 2) 1 1 True]) =
     Some (scenario_C_later, [Error scenario_C_error]) \<and>
   sl_heap scenario_C_later 0 =
     [example_label 0 (1 / 2) 1 False, example_label (1 / 2) (3 / 4) 1 False,
      example_label (1 / 2) 1 1 True]"
proof -
  have "process scenario_C = Some (scenario_C, [Error scenario_C_error])"
    using process_scenario_C by (simp add: scenario_C_error_def)
  moreover have "err_name scenario_C_error = ERROR_MISMATCH"
    and "err_speaker_labels scenario_C_error = Some 0"
    by (simp_all add: scenario_C_error_def)
  moreover have "sl_heap scenario_C 0 =
     [example_label 0 (1 / 2) 1 False, example_label (1 / 2) (3 / 4) 1 False]"
    by (simp add: scenario_C_def stream_with_def)
  moreover have "sl_heap scenario_C_later 0 =
     [example_label 0 (1 / 2) 1 False, example_label (1 / 2) (3 / 4) 1 False,
      example_label (1 / 2) 1 1 True]"
    by (simp add: scenario_C_later_def stream_with_def)
  ultimately show ?thesis
    using transform_scenario_C by blast
qed

text \<open>
  C8, amended. A \<open>MISMATCH\<close> error, of \<^verbatim>\<open>process\<close> or of \<^verbatim>\<open>_flush\<close>, carries the
  stream's two references \<^verbatim>\<open>this.timestamps\<close> and \<^verbatim>\<open>this.speaker_labels\<close> as they
  are when it is raised. Whatever messages come later, the timestamp array the error
  refers to keeps the timestamps it had then (\<^verbatim>\<open>concat\<close> builds a new array), whereas
  the label array the error refers to is the stream's own, and holds the stream's current
  labels at every later time.
\<close>

theorem error_collections:
  assumes reach: "transform_all noTimestamps SpeakerStream ds0 = Some s"
    and raised: "process s = Some (s1, evs) \<or> flush s = (s1, evs)"
    and e: "Error e \<in> set evs"
    and later: "transform_all noTimestamps s1 ds = Some s2"
  shows "err_name e = ERROR_MISMATCH \<and>
         err_timestamps e = Some (timestamps s) \<and>
         err_speaker_labels e = Some (speaker_labels s) \<and>
         s1 = s \<and>
         ts_heap s2 (timestamps s) = timestamps_of s \<and>
         sl_heap s2 (speaker_labels s) = labels_of s2"
proof -
  have s1: "s1 = s"
    using raised process_same flush_error_cases [OF _ e] by blast
  have fields: "err_name e = ERROR_MISMATCH \<and> err_timestamps e = Some (timestamps s) \<and>
      err_speaker_labels e = Some (speaker_labels s)"
    using raised
  proof
    assume "process s = Some (s1, evs)"
    from process_error [OF this e] show ?thesis
      by (auto simp: mismatch_error_def)
  next
    assume "flush s = (s1, evs)"
    from flush_error_cases [OF this e] show ?thesis
      by (auto simp: flush_error_def)
  qed
  have "allocated s"
    using reach by (rule reachable_invariants)
  then have lt: "timestamps s < ts_next s"
    by (simp add: allocated_def)
  from transform_all_frame [OF later]
  have "speaker_labels s2 = speaker_labels s" and "\<forall>a < ts_next s. ts_heap s2 a = ts_heap s a"
    by (simp_all add: s1)
  then have "ts_heap s2 (timestamps s) = timestamps_of s"
    and "sl_heap s2 (speaker_labels s) = labels_of s2"
    using lt by (simp_all add: timestamps_of_def labels_of_def)
  with fields s1 show ?thesis by simp
qed

theorem error_collections_witness:
  "err_name scenario_C_error = ERROR_MISMATCH \<and>
   err_timestamps scenario_C_error = Some 1 \<and>
   err_speaker_labels scenario_C_error = Some 0 \<and>
   ts_heap scenario_C_later 1 = timestamps_of scenario_C \<and>
   sl_heap scenario_C_later 0 = labels_of scenario_C_later"
proof -
  have p: "process scenario_C = Some (scenario_C, [Error scenario_C_error]) \<or>
      flush scenario_C = (scenario_C, [Error scenario_C_error])"
    using process_scenario_C by (simp add: scenario_C_error_def)
  have l: "transform_all missing_timestamps scenario_C
      [label_update [example_label (1 / 2) 1 1 True]] = Some scenario_C_later"
    unfolding transform_all.simps transform_scenario_C by simp
  have a: "timestamps scenario_C = 1" "speaker_labels scenario_C = 0"
    by (simp_all add: example_defs)
  have m: "Error scenario_C_error \<in> set [Error scenario_C_error]"
    by simp
  from error_collections [OF transform_all_scenario_C p m l]
  show ?thesis
    unfolding a by blast
qed

end
